theory Spec2Isabelle
  imports Main "HOL-Library.AList"
begin

text \<open>
  A model of \<open>Crawler.py\<close>, a crawler for one domain. It takes URLs from a queue,
  fetches each page, extracts the text of its main content by one of four strategies,
  stores one result per URL, queues the links of the page that are in scope, and writes
  the results to a file every 200 pages and when it stops. The functions of the
  module are translated one by one; the libraries that it calls (\<open>urllib.parse\<close>,
  \<open>requests\<close>, BeautifulSoup) are modelled as far as the module looks at their results,
  and the network is a parameter.
\<close>

section \<open>Python strings\<close>

text \<open>
  Python \<open>str\<close> values are modelled as \<^typ>\<open>string\<close>: a character is a code point
  below 256, and strings with other code points are outside the model. The case
  mapping and the white space class below are those of Python on these code points:
  \<open>str.lower\<close> maps \<open>A\<close> to \<open>Z\<close> and the code points 192 to 222 except 215 to the code
  point 32 higher and leaves the others as they are.
\<close>

definition lower_char :: "char \<Rightarrow> char" where
  "lower_char c =
     (case map_of (zip ''ABCDEFGHIJKLMNOPQRSTUVWXYZ'' ''abcdefghijklmnopqrstuvwxyz'') c of
        Some d \<Rightarrow> d
      | None \<Rightarrow>
          let n = (of_char c :: nat)
          in if 192 \<le> n \<and> n \<le> 222 \<and> n \<noteq> 215 then char_of (n + 32) else c)"

definition lower :: "string \<Rightarrow> string" where
  "lower s = map lower_char s"

definition is_letter :: "char \<Rightarrow> bool" where
  "is_letter c \<longleftrightarrow>
     c \<in> set ''abcdefghijklmnopqrstuvwxyzABCDEFGHIJKLMNOPQRSTUVWXYZ''"

definition is_digit :: "char \<Rightarrow> bool" where
  "is_digit c \<longleftrightarrow> c \<in> set ''0123456789''"

definition is_hex :: "char \<Rightarrow> bool" where
  "is_hex c \<longleftrightarrow> c \<in> set ''0123456789abcdefABCDEF''"

text \<open>\<open>str.isspace\<close>, which \<open>str.strip\<close> and the splitting of class attributes use: tab,
  line feed, vertical tab, form feed, carriage return, the four separators 28 to 31,
  the space, the next-line character 133 and the no-break space 160.\<close>

definition is_space :: "char \<Rightarrow> bool" where
  "is_space c \<longleftrightarrow>
     (of_char c :: nat) \<in> {9, 10, 11, 12, 13, 28, 29, 30, 31, 32, 133, 160}"

definition strip :: "string \<Rightarrow> string" where
  "strip s = rev (dropWhile is_space (rev (dropWhile is_space s)))"

text \<open>\<open>s.rstrip('/')\<close> removes every trailing slash, not only the last one.\<close>

definition rstrip_slash :: "string \<Rightarrow> string" where
  "rstrip_slash s = rev (dropWhile (\<lambda>c. c = CHR ''/'') (rev s))"

definition startswith :: "string \<Rightarrow> string \<Rightarrow> bool" where
  "startswith s p \<longleftrightarrow> take (length p) s = p"

definition endswith :: "string \<Rightarrow> string \<Rightarrow> bool" where
  "endswith s e \<longleftrightarrow> length e \<le> length s \<and> drop (length s - length e) s = e"

text \<open>\<open>sub in s\<close> for strings: \<open>sub\<close> occurs as a contiguous piece of \<open>s\<close>.\<close>

fun contains :: "string \<Rightarrow> string \<Rightarrow> bool" where
  "contains [] sub = (sub = [])"
| "contains (c # s) sub = (startswith (c # s) sub \<or> contains s sub)"

text \<open>\<open>s.split(d)[0]\<close> and, for the rest, \<open>s.split(d, 1)[1]\<close> when \<open>d\<close> occurs.\<close>

definition before :: "char \<Rightarrow> string \<Rightarrow> string" where
  "before d s = takeWhile (\<lambda>c. c \<noteq> d) s"

definition after :: "char \<Rightarrow> string \<Rightarrow> string" where
  "after d s = drop 1 (dropWhile (\<lambda>c. c \<noteq> d) s)"

text \<open>\<open>s.split(d)\<close>: the pieces between the occurrences of \<open>d\<close>, at least one piece.\<close>

fun split_on :: "char \<Rightarrow> string \<Rightarrow> string list" where
  "split_on d [] = [[]]"
| "split_on d (c # cs) =
     (if c = d then [] # split_on d cs
      else (case split_on d cs of
              [] \<Rightarrow> [[c]]
            | piece # pieces \<Rightarrow> (c # piece) # pieces))"

text \<open>\<open>str(n)\<close> for an integer, and \<open>int(s)\<close> for a string of decimal digits.\<close>

definition digit_char :: "nat \<Rightarrow> char" where
  "digit_char d = ''0123456789'' ! (d mod 10)"

function str_nat :: "nat \<Rightarrow> string" where
  "str_nat n = (if n < 10 then [digit_char n] else str_nat (n div 10) @ [digit_char n])"
  by pat_completeness auto
termination
  by (relation "measure id") auto

definition str_int :: "int \<Rightarrow> string" where
  "str_int i = (if i < 0 then ''-'' @ str_nat (nat (- i)) else str_nat (nat i))"

definition decimal_value :: "string \<Rightarrow> nat" where
  "decimal_value s = foldl (\<lambda>a c. 10 * a + (of_char c - 48)) 0 s"

text \<open>\<open>repr(s)\<close> for a string, as \<open>{address!r}\<close> writes it into a message: the string
  between single quotes, or between double quotes when it has a single quote and no
  double quote, with the quote and the backslash escaped, tab, line feed and carriage
  return as \<open>\t\<close>, \<open>\n\<close>, \<open>\r\<close>, and every other character that is not printable as
  \<open>\x\<close> and two hexadecimal digits. Below 256 the printable characters are the code
  points 32 to 126 and 161 to 255 without 173.\<close>

definition hex_digit :: "nat \<Rightarrow> char" where
  "hex_digit d = ''0123456789abcdef'' ! (d mod 16)"

definition is_printable :: "char \<Rightarrow> bool" where
  "is_printable c \<longleftrightarrow>
     (32 \<le> (of_char c :: nat) \<and> (of_char c :: nat) < 127) \<or>
     (161 \<le> (of_char c :: nat) \<and> (of_char c :: nat) \<noteq> 173)"

definition repr_char :: "char \<Rightarrow> char \<Rightarrow> string" where
  "repr_char quote c =
     (if c = quote \<or> c = CHR 0x5C then [CHR 0x5C, c]
      else if c = CHR 0x09 then [CHR 0x5C, CHR ''t'']
      else if c = CHR 0x0A then [CHR 0x5C, CHR ''n'']
      else if c = CHR 0x0D then [CHR 0x5C, CHR ''r'']
      else if is_printable c then [c]
      else [CHR 0x5C, CHR ''x'', hex_digit (of_char c div 16), hex_digit (of_char c)])"

definition repr_str :: "string \<Rightarrow> string" where
  "repr_str s =
     (let quote = (if CHR 0x27 \<in> set s \<and> CHR 0x22 \<notin> set s then CHR 0x22 else CHR 0x27)
      in [quote] @ concat (map (repr_char quote) s) @ [quote])"

text \<open>\<open>sep.join(parts)\<close>.\<close>

fun join :: "string \<Rightarrow> string list \<Rightarrow> string" where
  "join sep [] = []"
| "join sep [x] = x"
| "join sep (x # y # ys) = x @ sep @ join sep (y # ys)"

section \<open>urllib.parse\<close>

text \<open>
  \<open>urlparse\<close>, \<open>geturl\<close> and \<open>urljoin\<close> belong to the Python standard library. The first
  two are modelled after \<open>urllib/parse.py\<close> and \<open>ipaddress.py\<close> of CPython 3.11.10:
  leading control characters and spaces are dropped, tabs and line breaks are removed,
  the scheme is the text before the first colon when it starts with a letter and
  consists of scheme characters, the network location follows \<open>//\<close> up to the first of
  \<open>/ ? #\<close>, then the fragment, the query and the parameters are split off. A network
  location with an unmatched square bracket, or with a bracketed host that is neither
  an IPv6 address nor an IPvFuture address, raises \<open>ValueError\<close>, which is the value
  \<open>None\<close> of \<open>urlparse\<close> here; \<open>urlparse_error\<close> is the message of that exception. The
  last check of the library on a network location, on characters that the normal form
  NFKC turns into one of \<open>/ ? # @ :\<close>, never fails on code points below 256.
\<close>

record parse_result =
  scheme :: string
  netloc :: string
  path :: string
  params :: string
  query :: string
  fragment :: string

definition scheme_chars :: "char set" where
  "scheme_chars =
     set ''abcdefghijklmnopqrstuvwxyzABCDEFGHIJKLMNOPQRSTUVWXYZ0123456789+-.''"

definition uses_params :: "string list" where
  "uses_params = ['''', ''ftp'', ''hdl'', ''prospero'', ''http'', ''imap'', ''https'',
     ''shttp'', ''rtsp'', ''rtsps'', ''rtspu'', ''sip'', ''sips'', ''mms'', ''sftp'',
     ''tel'']"

definition uses_netloc :: "string list" where
  "uses_netloc = ['''', ''ftp'', ''http'', ''gopher'', ''nntp'', ''telnet'', ''imap'',
     ''wais'', ''file'', ''mms'', ''https'', ''shttp'', ''snews'', ''prospero'', ''rtsp'',
     ''rtsps'', ''rtspu'', ''rsync'', ''svn'', ''svn+ssh'', ''sftp'', ''nfs'', ''git'',
     ''git+ssh'', ''ws'', ''wss'']"

definition clean_url :: "string \<Rightarrow> string" where
  "clean_url url =
     filter (\<lambda>c. c \<notin> {CHR 0x09, CHR 0x0D, CHR 0x0A})
       (dropWhile (\<lambda>c. (of_char c :: nat) \<le> 32) url)"

text \<open>The scheme and what follows its colon.\<close>

definition split_scheme :: "string \<Rightarrow> string \<times> string" where
  "split_scheme url =
     (let pre = before (CHR '':'') url in
      if CHR '':'' \<in> set url \<and> pre \<noteq> [] \<and> is_letter (hd pre) \<and> set pre \<subseteq> scheme_chars
      then (lower pre, after (CHR '':'') url)
      else ('''', url))"

text \<open>\<open>_splitnetloc(url, 2)\<close>: the text after \<open>//\<close> up to the first delimiter.\<close>

definition is_delim :: "char \<Rightarrow> bool" where
  "is_delim c \<longleftrightarrow> c \<in> {CHR ''/'', CHR ''?'', CHR ''#''}"

definition split_netloc :: "string \<Rightarrow> string \<times> string" where
  "split_netloc url =
     (if take 2 url = ''//''
      then (takeWhile (\<lambda>c. \<not> is_delim c) (drop 2 url),
            dropWhile (\<lambda>c. \<not> is_delim c) (drop 2 url))
      else ('''', url))"

definition bad_brackets :: "string \<Rightarrow> bool" where
  "bad_brackets nl \<longleftrightarrow>
     (CHR ''['' \<in> set nl \<and> CHR '']'' \<notin> set nl) \<or>
     (CHR '']'' \<in> set nl \<and> CHR ''['' \<notin> set nl)"

text \<open>\<open>ipaddress.IPv4Address\<close> accepts the string: four octets between dots, each of one
  to three decimal digits, without a leading zero, and at most 255.\<close>

definition octet_ok :: "string \<Rightarrow> bool" where
  "octet_ok octet_str \<longleftrightarrow>
     octet_str \<noteq> [] \<and> list_all is_digit octet_str \<and> length octet_str \<le> 3 \<and>
     \<not> (octet_str \<noteq> ''0'' \<and> hd octet_str = CHR ''0'') \<and> decimal_value octet_str \<le> 255"

definition ipv4_address_ok :: "string \<Rightarrow> bool" where
  "ipv4_address_ok addr_str \<longleftrightarrow>
     CHR ''/'' \<notin> set addr_str \<and> addr_str \<noteq> [] \<and>
     length (split_on (CHR ''.'') addr_str) = 4 \<and>
     list_all octet_ok (split_on (CHR ''.'') addr_str)"

text \<open>\<open>ipaddress.IPv6Address\<close> accepts the string. A scope after \<open>%\<close> is not empty and
  has no further \<open>%\<close>. The address has three to nine parts between colons, after an
  IPv4 address at the end has been replaced by two hextets (their value does not
  matter here). At most one inner part is empty, the \<open>::\<close>; with it, an empty first or
  last part belongs to it and at most seven hextets are left; without it, there are
  eight hextets. A hextet is one to four hexadecimal digits.\<close>

definition hextet_ok :: "string \<Rightarrow> bool" where
  "hextet_ok hextet_str \<longleftrightarrow>
     list_all is_hex hextet_str \<and> length hextet_str \<le> 4 \<and> hextet_str \<noteq> []"

definition ipv6_parts_ok :: "string list \<Rightarrow> bool" where
  "ipv6_parts_ok parts =
     (if length parts > 9 then False
      else
        (case filter (\<lambda>i. parts ! i = []) [1..<length parts - 1] of
           [] \<Rightarrow>
             length parts = 8 \<and> hd parts \<noteq> [] \<and> last parts \<noteq> [] \<and>
             list_all hextet_ok parts
         | [skip_index] \<Rightarrow>
             let parts_hi = (if hd parts = [] then skip_index - 1 else skip_index);
                 parts_lo = (if last parts = [] then length parts - skip_index - 2
                             else length parts - skip_index - 1)
             in (if hd parts = [] then parts_hi = 0 else True) \<and>
                (if last parts = [] then parts_lo = 0 else True) \<and>
                parts_hi + parts_lo \<le> 7 \<and>
                list_all hextet_ok (take parts_hi parts) \<and>
                list_all hextet_ok (drop (length parts - parts_lo) parts)
         | skip_index # second_index # others \<Rightarrow> False))"

definition ipv6_address_ok :: "string \<Rightarrow> bool" where
  "ipv6_address_ok address =
     (if CHR ''/'' \<in> set address then False
      else if CHR ''%'' \<in> set address \<and>
              (after (CHR ''%'') address = [] \<or> CHR ''%'' \<in> set (after (CHR ''%'') address))
      then False
      else
        let ip_str = before (CHR ''%'') address;
            parts = split_on (CHR '':'') ip_str
        in if ip_str = [] \<or> length parts < 3 then False
           else if CHR ''.'' \<in> set (last parts)
           then ipv4_address_ok (last parts) \<and> ipv6_parts_ok (butlast parts @ [''0'', ''0''])
           else ipv6_parts_ok parts)"

text \<open>\<open>_check_bracketed_host\<close> accepts an IPvFuture address, \<open>v\<close>, hexadecimal digits, a
  dot and at least one more character, or else an address that \<open>ipaddress.ip_address\<close>
  accepts and that is not an IPv4 address. The result is the message of the
  \<open>ValueError\<close> that it raises, and \<open>None\<close> when it returns.\<close>

definition ipvfuture_ok :: "string \<Rightarrow> bool" where
  "ipvfuture_ok hostname \<longleftrightarrow>
     before (CHR ''.'') (drop 1 hostname) \<noteq> [] \<and>
     list_all is_hex (before (CHR ''.'') (drop 1 hostname)) \<and>
     CHR ''.'' \<in> set (drop 1 hostname) \<and>
     after (CHR ''.'') (drop 1 hostname) \<noteq> [] \<and>
     CHR 0x0A \<notin> set (after (CHR ''.'') (drop 1 hostname))"

definition check_bracketed_host :: "string \<Rightarrow> string option" where
  "check_bracketed_host hostname =
     (if startswith hostname ''v''
      then (if ipvfuture_ok hostname then None else Some ''IPvFuture address is invalid'')
      else if ipv4_address_ok hostname then Some ''An IPv4 address cannot be in brackets''
      else if ipv6_address_ok hostname then None
      else Some (repr_str hostname @ '' does not appear to be an IPv4 or IPv6 address''))"

text \<open>The checks of \<open>urlsplit\<close> on the network location: the message of the \<open>ValueError\<close>
  that it raises, and \<open>None\<close> when the network location passes.\<close>

definition netloc_error :: "string \<Rightarrow> string option" where
  "netloc_error nl =
     (if bad_brackets nl then Some ''Invalid IPv6 URL''
      else if CHR ''['' \<in> set nl \<and> CHR '']'' \<in> set nl
      then check_bracketed_host (before (CHR '']'') (after (CHR ''['') nl))
      else None)"

text \<open>\<open>_splitparams\<close>: the parameters start at the first semicolon of the last path
  segment.\<close>

definition split_params :: "string \<Rightarrow> string \<times> string" where
  "split_params p =
     (let seg = rev (takeWhile (\<lambda>c. c \<noteq> CHR ''/'') (rev p));
          dir = take (length p - length seg) p
      in if CHR '';'' \<in> set seg
         then (dir @ before (CHR '';'') seg, after (CHR '';'') seg)
         else (p, ''''))"

definition urlparse :: "string \<Rightarrow> parse_result option" where
  "urlparse url =
     (let (sch, r1) = split_scheme (clean_url url);
          (nl, r2) = split_netloc r1
      in if netloc_error nl \<noteq> None then None
         else
           let r3 = before (CHR ''#'') r2;
               frag = after (CHR ''#'') r2;
               p = before (CHR ''?'') r3;
               q = after (CHR ''?'') r3;
               (p', ps) = (if sch \<in> set uses_params \<and> CHR '';'' \<in> set p
                           then split_params p else (p, ''''))
           in Some \<lparr>scheme = sch, netloc = nl, path = p', params = ps, query = q,
                     fragment = frag\<rparr>)"

text \<open>The message of the \<open>ValueError\<close> that \<open>urlparse\<close> raises on a URL that it
  refuses.\<close>

definition urlparse_error :: "string \<Rightarrow> string" where
  "urlparse_error url =
     (let (sch, r1) = split_scheme (clean_url url);
          (nl, r2) = split_netloc r1
      in case netloc_error nl of None \<Rightarrow> [] | Some msg \<Rightarrow> msg)"

text \<open>\<open>urlunparse\<close>, which \<open>geturl()\<close> calls on the six components.\<close>

definition geturl :: "parse_result \<Rightarrow> string" where
  "geturl r =
     (let u0 = (if params r \<noteq> [] then path r @ '';'' @ params r else path r);
          u1 = (if netloc r \<noteq> [] \<or> (scheme r \<noteq> [] \<and> scheme r \<in> set uses_netloc) \<or>
                   take 2 u0 = ''//''
                then ''//'' @ netloc r @ (if u0 \<noteq> [] \<and> take 1 u0 \<noteq> ''/'' then ''/'' @ u0 else u0)
                else u0);
          u2 = (if scheme r \<noteq> [] then scheme r @ '':'' @ u1 else u1);
          u3 = (if query r \<noteq> [] then u2 @ ''?'' @ query r else u2)
      in if fragment r \<noteq> [] then u3 @ ''#'' @ fragment r else u3)"

section \<open>Configuration\<close>

definition START_URL :: string where
  "START_URL = ''https://www.workstream.us/''"

definition ALLOWED_DOMAIN :: string where
  "ALLOWED_DOMAIN = (case urlparse START_URL of None \<Rightarrow> [] | Some r \<Rightarrow> netloc r)"

definition SAVE_EVERY_N_PAGES :: int where
  "SAVE_EVERY_N_PAGES = 200"

section \<open>The scope filter\<close>

definition excluded_extensions :: "string list" where
  "excluded_extensions =
     [''.pdf'', ''.jpg'', ''.jpeg'', ''.png'', ''.gif'', ''.zip'', ''.docx'', ''.xlsx'',
      ''.pptx'', ''.mp4'', ''.mov'', ''.avi'', ''.svg'', ''.css'', ''.js'', ''.xml'',
      ''.txt'', ''.ico'', ''.webp'', ''.woff'', ''.woff2'', ''.ttf'', ''.eot'', ''.map'']"

text \<open>\<open>s.endswith(tuple)\<close>.\<close>

definition endswith_any :: "string \<Rightarrow> string list \<Rightarrow> bool" where
  "endswith_any s es \<longleftrightarrow> list_ex (endswith s) es"

definition is_valid_url :: "string \<Rightarrow> bool" where
  "is_valid_url url =
     (case urlparse url of
        None \<Rightarrow> False
      | Some parsed \<Rightarrow>
          if \<not> (scheme parsed \<in> set [''http'', ''https''] \<and> netloc parsed = ALLOWED_DOMAIN \<and>
                 CHR ''#'' \<notin> set url)
          then False
          else if endswith_any (before (CHR ''#'') (before (CHR ''?'') (lower url)))
                    excluded_extensions
          then False
          else True)"

section \<open>Exceptions\<close>

text \<open>
  What a statement of the crawler can raise. \<open>Timeout\<close> is a subclass of
  \<open>RequestException\<close>, and both are subclasses of \<open>Exception\<close>; \<open>Exception name message\<close>
  stands for every other subclass of \<open>Exception\<close>. \<open>KeyboardInterrupt\<close> and \<open>SystemExit\<close>
  derive from \<open>BaseException\<close> only, so an \<open>except Exception\<close> clause lets them pass.
\<close>

datatype raised =
    Timeout
  | RequestException string
  | Exception string string
  | KeyboardInterrupt
  | SystemExit int

section \<open>Parsed documents\<close>

text \<open>
  The tree that BeautifulSoup builds. \<open>NavigableString\<close> is a text node that \<open>get_text\<close>
  returns; \<open>Special\<close> is a string that \<open>get_text\<close> skips (a comment, a doctype, and in
  recent versions the content of script and style elements); \<open>Tag\<close> is an element with
  its name, its attributes and its children. The document itself is a \<open>Tag\<close> named
  \<open>[document]\<close>. An attribute value is kept as written; the class attribute is split
  at whitespace where it is matched.
\<close>

datatype node =
    NavigableString string
  | Special string
  | Tag string "(string \<times> string) list" "node list"

fun is_element :: "node \<Rightarrow> bool" where
  "is_element (Tag n a cs) = True"
| "is_element x = False"

fun tag_name :: "node \<Rightarrow> string" where
  "tag_name (Tag n a cs) = n"
| "tag_name x = []"

fun get_attr :: "node \<Rightarrow> string \<Rightarrow> string option" where
  "get_attr (Tag n a cs) k = map_of a k"
| "get_attr x k = None"

fun split_acc :: "string \<Rightarrow> string \<Rightarrow> string list" where
  "split_acc acc [] = (if acc = [] then [] else [rev acc])"
| "split_acc acc (c # cs) =
     (if is_space c
      then (if acc = [] then split_acc [] cs else rev acc # split_acc [] cs)
      else split_acc (c # acc) cs)"

text \<open>\<open>s.split()\<close>: the maximal pieces without whitespace.\<close>

definition split_ws :: "string \<Rightarrow> string list" where
  "split_ws s = split_acc [] s"

definition classes :: "node \<Rightarrow> string list" where
  "classes n = (case get_attr n ''class'' of None \<Rightarrow> [] | Some v \<Rightarrow> split_ws v)"

text \<open>The elements and strings below a node, in document order.\<close>

fun descendants :: "node \<Rightarrow> node list" where
  "descendants (Tag n a cs) = concat (map (\<lambda>c. c # descendants c) cs)"
| "descendants x = []"

text \<open>\<open>soup.find(...)\<close>: the first descendant that matches, or \<open>None\<close>.\<close>

definition find_first :: "(node \<Rightarrow> bool) \<Rightarrow> node \<Rightarrow> node option" where
  "find_first p soup = List.find p (descendants soup)"

definition is_tag :: "string \<Rightarrow> node \<Rightarrow> bool" where
  "is_tag name n \<longleftrightarrow> is_element n \<and> tag_name n = name"

text \<open>\<open>find('main', id='main-content')\<close>, \<open>find('main')\<close>,
  \<open>find('div', class_='body-container-wrapper')\<close>, \<open>soup.body\<close> and \<open>soup.title\<close>.\<close>

definition find_main_content :: "node \<Rightarrow> node option" where
  "find_main_content soup =
     find_first (\<lambda>n. is_tag ''main'' n \<and> get_attr n ''id'' = Some ''main-content'') soup"

definition find_main :: "node \<Rightarrow> node option" where
  "find_main soup = find_first (is_tag ''main'') soup"

definition find_wrapper :: "node \<Rightarrow> node option" where
  "find_wrapper soup =
     find_first (\<lambda>n. is_tag ''div'' n \<and> ''body-container-wrapper'' \<in> set (classes n)) soup"

definition find_body :: "node \<Rightarrow> node option" where
  "find_body soup = find_first (is_tag ''body'') soup"

definition find_title :: "node \<Rightarrow> node option" where
  "find_title soup = find_first (is_tag ''title'') soup"

text \<open>\<open>get_text(separator=' ', strip=True)\<close>: every text node below the node is
  stripped, the empty ones are dropped, the rest is joined with one space.\<close>

fun all_strings :: "node \<Rightarrow> string list" where
  "all_strings (NavigableString s) = [s]"
| "all_strings (Special s) = []"
| "all_strings (Tag n a cs) = concat (map all_strings cs)"

definition stripped_strings :: "string list \<Rightarrow> string list" where
  "stripped_strings ss = filter (\<lambda>s. s \<noteq> []) (map strip ss)"

definition get_text :: "node \<Rightarrow> string" where
  "get_text n = join '' '' (stripped_strings (all_strings n))"

text \<open>\<open>tag.string\<close>: the only child when it is a string, the \<open>.string\<close> of the only
  child when it is an element, otherwise \<open>None\<close>.\<close>

fun dot_string :: "node \<Rightarrow> string option" where
  "dot_string (NavigableString s) = Some s"
| "dot_string (Special s) = Some s"
| "dot_string (Tag n a [c]) = dot_string c"
| "dot_string (Tag n a cs) = None"

definition page_title_of :: "node \<Rightarrow> string" where
  "page_title_of soup =
     (case find_title soup of
        None \<Rightarrow> ''No Title Found''
      | Some t \<Rightarrow>
          (case dot_string t of
             None \<Rightarrow> ''No Title Found''
           | Some s \<Rightarrow> if s = [] then ''No Title Found'' else strip s))"

text \<open>\<open>find_all('a', href=True)\<close> and the \<open>href\<close> of each anchor found.\<close>

definition anchor_hrefs :: "node \<Rightarrow> string list" where
  "anchor_hrefs soup =
     concat (map (\<lambda>n. if is_tag ''a'' n
                         then (case get_attr n ''href'' of None \<Rightarrow> [] | Some h \<Rightarrow> [h])
                         else [])
               (descendants soup))"

text \<open>\<open>element.decompose()\<close> on every element that matches: the matching subtrees
  disappear. The root is the document, which no selector matches.\<close>

fun remove_matching :: "(node \<Rightarrow> bool) \<Rightarrow> node \<Rightarrow> node" where
  "remove_matching p (Tag n a cs) =
     Tag n a (map (remove_matching p) (filter (\<lambda>c. \<not> p c) cs))"
| "remove_matching p x = x"

section \<open>CSS selectors\<close>

text \<open>
  \<open>soup.select(selector)\<close> compiles the selector string and returns the elements that
  match; a string that is not a CSS selector raises \<open>SelectorSyntaxError\<close>, a subclass
  of \<open>Exception\<close>. The crawler only passes compound selectors: an optional element name
  followed by class, id and attribute tests, with no combinator, group or pseudo-class.
  The compiler below covers exactly that fragment and answers \<open>None\<close> for a syntax
  error. An identifier is an optional hyphen, then a letter or an underscore, then
  letters, digits, hyphens and underscores.
\<close>

datatype simple_selector =
    TypeSel string
  | ClassSel string
  | IdSel string
  | AttrPresent string
  | AttrTest string string string

definition ident_start :: "char \<Rightarrow> bool" where
  "ident_start c \<longleftrightarrow> is_letter c \<or> c = CHR ''_''"

definition ident_char :: "char \<Rightarrow> bool" where
  "ident_char c \<longleftrightarrow> is_letter c \<or> is_digit c \<or> c = CHR ''-'' \<or> c = CHR ''_''"

text \<open>The identifier at the head of a string and the rest, or \<open>None\<close>.\<close>

definition take_ident :: "string \<Rightarrow> (string \<times> string) option" where
  "take_ident s =
     (let dash = (if take 1 s = ''-'' then ''-'' else []);
          r = drop (length dash) s
      in case r of
           [] \<Rightarrow> None
         | c # cs \<Rightarrow>
             if ident_start c
             then Some (dash @ c # takeWhile ident_char cs, dropWhile ident_char cs)
             else None)"

text \<open>A quoted attribute value and the rest.\<close>

definition take_quoted :: "string \<Rightarrow> (string \<times> string) option" where
  "take_quoted s =
     (case s of
        [] \<Rightarrow> None
      | q # cs \<Rightarrow>
          if (q = CHR 0x22 \<or> q = CHR 0x27) \<and> q \<in> set cs
          then Some (before q cs, after q cs)
          else None)"

text \<open>What follows an opening bracket: a name, then either the closing bracket or one
  of the operators \<open>=\<close>, \<open>*=\<close>, \<open>^=\<close>, \<open>$=\<close> with a quoted value and the closing bracket.\<close>

definition take_attr :: "string \<Rightarrow> (simple_selector \<times> string) option" where
  "take_attr s =
     (case take_ident s of
        None \<Rightarrow> None
      | Some (name, r) \<Rightarrow>
          if take 1 r = '']'' then Some (AttrPresent name, drop 1 r)
          else
            let (opr, r') =
                  (if take 1 r = ''='' then (''='', drop 1 r)
                   else if take 2 r \<in> set [''*='', ''^='', ''$=''] then (take 2 r, drop 2 r)
                   else ([], r))
            in if opr = [] then None
               else (case take_quoted r' of
                       None \<Rightarrow> None
                     | Some (v, r'') \<Rightarrow>
                         if take 1 r'' = '']'' then Some (AttrTest name opr v, drop 1 r'')
                         else None))"

text \<open>The class, id and attribute tests after the optional element name.\<close>

function parse_simple :: "string \<Rightarrow> simple_selector list option" where
  "parse_simple [] = Some []"
| "parse_simple (c # cs) =
     (if c = CHR ''.'' then
        (case take_ident cs of
           None \<Rightarrow> None
         | Some (i, r) \<Rightarrow> map_option ((#) (ClassSel i)) (parse_simple r))
      else if c = CHR ''#'' then
        (case take_ident cs of
           None \<Rightarrow> None
         | Some (i, r) \<Rightarrow> map_option ((#) (IdSel i)) (parse_simple r))
      else if c = CHR ''['' then
        (case take_attr cs of
           None \<Rightarrow> None
         | Some (a, r) \<Rightarrow> map_option ((#) a) (parse_simple r))
      else None)"
  by pat_completeness auto
termination
proof -
  have ident: "length r < length s" if "take_ident s = Some (i, r)" for s i r
  proof -
    define d :: string where "d = (if take 1 s = ''-'' then ''-'' else [])"
    from that obtain c cs where dr: "drop (length d) s = c # cs"
      and r: "r = dropWhile ident_char cs"
      by (auto simp: take_ident_def Let_def d_def split: list.splits if_splits)
    from dr have "length s - length d = Suc (length cs)"
      by (metis length_drop length_Cons)
    moreover have "length r \<le> length cs"
      by (simp add: r length_dropWhile_le)
    ultimately show ?thesis by simp
  qed
  have quoted: "length r < length s" if "take_quoted s = Some (v, r)" for s v r
  proof -
    from that obtain q cs where s: "s = q # cs" and r: "r = after q cs"
      by (auto simp: take_quoted_def split: list.splits if_splits)
    have "length (after q cs) \<le> length cs"
      by (simp add: after_def) (metis diff_le_self le_trans length_dropWhile_le)
    with s r show ?thesis by simp
  qed
  have attr: "length r < length s" if "take_attr s = Some (a, r)" for s a r
    using that
    by (auto simp: take_attr_def Let_def split: option.splits if_splits prod.splits
        dest!: ident quoted)
  show ?thesis
    by (relation "measure length") (auto dest!: ident attr)
qed

definition css_compile :: "string \<Rightarrow> simple_selector list option" where
  "css_compile s =
     (if s = [] then None
      else case take_ident s of
             Some (t, r) \<Rightarrow> map_option ((#) (TypeSel t)) (parse_simple r)
           | None \<Rightarrow> parse_simple s)"

fun simple_matches :: "simple_selector \<Rightarrow> node \<Rightarrow> bool" where
  "simple_matches (TypeSel t) n = (tag_name n = t)"
| "simple_matches (ClassSel c) n = (c \<in> set (classes n))"
| "simple_matches (IdSel i) n = (get_attr n ''id'' = Some i)"
| "simple_matches (AttrPresent a) n = (get_attr n a \<noteq> None)"
| "simple_matches (AttrTest a opr v) n =
     (case get_attr n a of
        None \<Rightarrow> False
      | Some x \<Rightarrow>
          if opr = ''='' then x = v
          else if opr = ''*='' then v \<noteq> [] \<and> contains x v
          else if opr = ''^='' then v \<noteq> [] \<and> startswith x v
          else if opr = ''$='' then v \<noteq> [] \<and> endswith x v
          else False)"

definition compound_matches :: "simple_selector list \<Rightarrow> node \<Rightarrow> bool" where
  "compound_matches c n \<longleftrightarrow> is_element n \<and> list_all (\<lambda>s. simple_matches s n) c"

text \<open>
  The removal loop \<open>for selector in selectors_to_remove: for element in
  soup.select(selector): element.decompose()\<close>. The first selector that does not compile
  raises, and the loop stops there. The message of the exception is shortened to the
  selector; the library adds the position of the error.
\<close>

fun remove_selectors :: "string list \<Rightarrow> node \<Rightarrow> raised + node" where
  "remove_selectors [] t = Inr t"
| "remove_selectors (sel # sels) t =
     (case css_compile sel of
        None \<Rightarrow> Inl (Exception ''SelectorSyntaxError'' sel)
      | Some c \<Rightarrow> remove_selectors sels (remove_matching (compound_matches c) t))"

section \<open>Text extraction\<close>

definition wrapper_selectors :: "string list" where
  "wrapper_selectors =
     [''header'', ''footer'', ''nav'', ''.announcement_bar'', ''script'', ''style'',
      ''noscript'']"

definition body_selectors :: "string list" where
  "body_selectors =
     [''header'', ''footer'', ''nav'', ''.announcement_bar'',
      ''div.header_mega_menu'', ''div.header_fixed_manage'',
      ''noscript'', ''script'', ''style'',
      ''.social-links'', ''#sidebar'', ''.advertisement'', ''.cookie-consent'',
      ''.hs-skip-link'', ''#hs-web-interactives-.*'', ''.go[0-9]+'',
      ''iframe[src*=\"googletagmanager\"]'']"

text \<open>
  The four strategies of \<open>crawl\<close>, in the order of the nested \<open>if\<close>. The result is the
  page text with the extraction method, or the exception that left the extraction.
  A \<open>Tag\<close> is always true in a condition, so \<open>if main_content_area:\<close> asks whether
  \<open>find\<close> found an element. The parameter \<open>reparse\<close> stands for
  \<open>BeautifulSoup(str(element), 'html.parser')\<close>: the document that the second parser
  builds from the text of the element, or the exception that it raises.
\<close>

definition extract_text ::
  "(node \<Rightarrow> raised + node) \<Rightarrow> node \<Rightarrow> raised + (string \<times> string)" where
  "extract_text reparse soup =
     (case find_main_content soup of
        Some m \<Rightarrow> Inr (get_text m, ''main#main-content'')
      | None \<Rightarrow>
     (case find_main soup of
        Some m \<Rightarrow> Inr (get_text m, ''<main> tag'')
      | None \<Rightarrow>
     (case find_wrapper soup of
        Some d \<Rightarrow>
          (case reparse d of
             Inl e \<Rightarrow> Inl e
           | Inr copy \<Rightarrow>
               (case remove_selectors wrapper_selectors copy of
                  Inl e \<Rightarrow> Inl e
                | Inr temp_soup \<Rightarrow> Inr (get_text temp_soup, ''div.body-container-wrapper'')))
      | None \<Rightarrow>
     (case find_body soup of
        Some b \<Rightarrow>
          (case reparse b of
             Inl e \<Rightarrow> Inl e
           | Inr copy \<Rightarrow>
               (case remove_selectors body_selectors copy of
                  Inl e \<Rightarrow> Inl e
                | Inr temp_body_soup \<Rightarrow>
                    Inr (get_text temp_body_soup, ''Fallback (Body Cleanup)'')))
      | None \<Rightarrow> Inr (get_text soup, ''Fallback (Full Document - No Body)'')))))"

section \<open>The crawl state\<close>

text \<open>
  One entry of \<open>crawl_data\<close>: the dictionaries with \<open>status\<close> \<open>success\<close> (text, title,
  extraction method), \<open>skipped_non_html\<close> (content type), \<open>error\<close> and
  \<open>processing_error\<close> (error message).
\<close>

datatype crawl_result =
    Success string string string
  | SkippedNonHtml string
  | Error string
  | ProcessingError string

fun status :: "crawl_result \<Rightarrow> string" where
  "status (Success t ti m) = ''success''"
| "status (SkippedNonHtml c) = ''skipped_non_html''"
| "status (Error m) = ''error''"
| "status (ProcessingError m) = ''processing_error''"

text \<open>
  The global variables of the module and the local \<open>queue\<close> of \<open>crawl\<close>. \<open>crawl_data\<close>
  is a Python dictionary: an association list in insertion order, where assigning to a
  key that is present replaces its value in place. \<open>output_file\<close> lists the snapshots
  that \<open>save_data\<close> has handed to \<open>json.dump\<close>, the latest last; each one overwrites the
  file. A write that fails in the operating system is caught and printed by
  \<open>save_data\<close> and changes nothing else.
\<close>

record crawl_state =
  queue :: "string list"
  visited_urls :: "string set"
  pages_crawled :: int
  crawl_data :: "(string \<times> crawl_result) list"
  last_save_count :: int
  output_file :: "(string \<times> crawl_result) list list"

definition initial_state :: "string \<Rightarrow> crawl_state" where
  "initial_state start_url =
     \<lparr>queue = [start_url], visited_urls = {}, pages_crawled = 0, crawl_data = [],
      last_save_count = 0, output_file = []\<rparr>"

definition save_data :: "crawl_state \<Rightarrow> crawl_state" where
  "save_data s = s\<lparr>output_file := output_file s @ [crawl_data s]\<rparr>"

text \<open>\<open>crawl_data[url] = result\<close>.\<close>

definition store :: "string \<Rightarrow> crawl_result \<Rightarrow> crawl_state \<Rightarrow> crawl_state" where
  "store url r s = s\<lparr>crawl_data := AList.update url r (crawl_data s)\<rparr>"

text \<open>\<open>crawl_data[url] = result; pages_crawled += 1\<close>.\<close>

definition record_page :: "string \<Rightarrow> crawl_result \<Rightarrow> crawl_state \<Rightarrow> crawl_state" where
  "record_page url r s = (store url r s)\<lparr>pages_crawled := pages_crawled s + 1\<rparr>"

section \<open>The outside world\<close>

text \<open>
  What the network answers for a URL, as far as \<open>crawl\<close> looks at it.
  \<^item> \<open>Sigint\<close>: the operator's SIGINT arrives during the delay or the request; the
    installed \<open>signal_handler\<close> runs there.
  \<^item> \<open>FetchRaises e\<close>: \<open>requests.get\<close> raises \<open>e\<close> (a time-out, or a transport failure
    as \<open>RequestException\<close>).
  \<^item> \<open>Response status_code reason url content_type parsed\<close>: the response that
    \<open>requests.get\<close> returns, with its status, the reason phrase and the URL that go
    into the message of \<open>raise_for_status\<close>, its content-type header (empty when the
    header is missing) and what the parsers make of the body.
  For the body, \<open>Parsed soup\<close> is the document that the parser built; \<open>ParseRaises e\<close>
  says that the fallback parser raised \<open>e\<close>; \<open>ParsedAfterSigint soup\<close> says that SIGINT
  arrived while the first parser ran, so that the bare \<open>except:\<close> around it caught the
  handler's \<open>SystemExit\<close> and the fallback parser built \<open>soup\<close>.
  \<open>urljoin\<close> of the standard library is a parameter; \<open>Inl msg\<close> is its \<open>ValueError\<close>
  with the message \<open>msg\<close>. So is \<open>reparse\<close>, the second parse of an element in the third
  and fourth strategy.
\<close>

datatype parse_outcome =
    Parsed node
  | ParsedAfterSigint node
  | ParseRaises raised

datatype fetch_outcome =
    Sigint
  | FetchRaises raised
  | Response int string string string parse_outcome

record world =
  fetch :: "string \<Rightarrow> fetch_outcome"
  urljoin :: "string \<Rightarrow> string \<Rightarrow> string + string"
  reparse :: "node \<Rightarrow> raised + node"

text \<open>\<open>response.raise_for_status()\<close> of \<open>requests\<close>: an \<open>HTTPError\<close>, which is a
  \<open>RequestException\<close>, for a status from 400 to 599, and nothing for any other status.\<close>

definition raise_for_status :: "int \<Rightarrow> string \<Rightarrow> string \<Rightarrow> raised option" where
  "raise_for_status status_code reason url =
     (let http_error_msg =
            (if 400 \<le> status_code \<and> status_code < 500
             then str_int status_code @ '' Client Error: '' @ reason @ '' for url: '' @ url
             else if 500 \<le> status_code \<and> status_code < 600
             then str_int status_code @ '' Server Error: '' @ reason @ '' for url: '' @ url
             else [])
      in if http_error_msg \<noteq> [] then Some (RequestException http_error_msg) else None)"

section \<open>The crawl loop\<close>

text \<open>The cleaning of a URL taken from the queue (\<open>None\<close>: \<open>urlparse\<close> raises).\<close>

definition clean_dequeued :: "string \<Rightarrow> string option" where
  "clean_dequeued current_url =
     (case urlparse current_url of
        None \<Rightarrow> None
      | Some parsed_url_temp \<Rightarrow>
          if path parsed_url_temp \<noteq> [] \<and> path parsed_url_temp \<noteq> ''/'' \<and>
             endswith current_url ''/''
          then Some (rstrip_slash current_url)
          else Some current_url)"

text \<open>The normal form of a link, from the result of \<open>urljoin\<close>.\<close>

definition normalize_link :: "string \<Rightarrow> string option" where
  "normalize_link joined =
     (case urlparse joined of
        None \<Rightarrow> None
      | Some parsed_new_url \<Rightarrow>
          let absolute_url = geturl (parsed_new_url\<lparr>fragment := []\<rparr>)
          in if path parsed_new_url \<noteq> [] \<and> path parsed_new_url \<noteq> ''/'' \<and>
                endswith absolute_url ''/''
             then Some (rstrip_slash absolute_url)
             else Some absolute_url)"

text \<open>The guarded \<open>queue.append\<close> at the end of the link loop.\<close>

definition enqueue :: "string \<Rightarrow> crawl_state \<Rightarrow> crawl_state" where
  "enqueue absolute_url s =
     (if is_valid_url absolute_url \<and> absolute_url \<notin> visited_urls s \<and>
         absolute_url \<notin> set (queue s)
      then s\<lparr>queue := queue s @ [absolute_url]\<rparr>
      else s)"

text \<open>The link loop over the \<open>href\<close> values. It stops where \<open>urljoin\<close> or \<open>urlparse\<close>
  raises, with the links before already queued.\<close>

fun queue_links ::
  "world \<Rightarrow> string \<Rightarrow> string list \<Rightarrow> crawl_state \<Rightarrow> raised option \<times> crawl_state" where
  "queue_links w current_url [] s = (None, s)"
| "queue_links w current_url (href # hrefs) s =
     (if href = [] then queue_links w current_url hrefs s
      else
        (case urljoin w current_url (strip href) of
           Inl msg \<Rightarrow> (Some (Exception ''ValueError'' msg), s)
         | Inr joined \<Rightarrow>
             (case normalize_link joined of
                None \<Rightarrow> (Some (Exception ''ValueError'' (urlparse_error joined)), s)
              | Some absolute_url \<Rightarrow>
                  queue_links w current_url hrefs (enqueue absolute_url s))))"

text \<open>The periodic save after a page has been processed.\<close>

definition periodic_save :: "crawl_state \<Rightarrow> crawl_state" where
  "periodic_save s =
     (if pages_crawled s mod SAVE_EVERY_N_PAGES = 0 \<and> pages_crawled s > last_save_count s
      then (save_data s)\<lparr>last_save_count := pages_crawled s\<rparr>
      else s)"

text \<open>The \<open>try\<close> body from the extraction on. The result is the exception that leaves
  the body, if any, with the state at that point.\<close>

definition process_soup ::
  "world \<Rightarrow> string \<Rightarrow> node \<Rightarrow> crawl_state \<Rightarrow> raised option \<times> crawl_state" where
  "process_soup w current_url soup s =
     (case extract_text (reparse w) soup of
        Inl e \<Rightarrow> (Some e, s)
      | Inr (page_text, extraction_method) \<Rightarrow>
          let s1 = store current_url (Success page_text (page_title_of soup) extraction_method) s
          in (case queue_links w current_url (anchor_hrefs soup) s1 of
                (Some e, s2) \<Rightarrow> (Some e, s2)
              | (None, s2) \<Rightarrow>
                  (None, periodic_save (s2\<lparr>pages_crawled := pages_crawled s2 + 1\<rparr>))))"

text \<open>\<open>signal_handler\<close>: save, then \<open>sys.exit(0)\<close>, which raises \<open>SystemExit\<close> where the
  signal arrived.\<close>

definition signal_handler :: "crawl_state \<Rightarrow> raised \<times> crawl_state" where
  "signal_handler s = (SystemExit 0, save_data s)"

text \<open>The whole \<open>try\<close> body.\<close>

definition try_body :: "world \<Rightarrow> string \<Rightarrow> crawl_state \<Rightarrow> raised option \<times> crawl_state" where
  "try_body w current_url s =
     (case fetch w current_url of
        Sigint \<Rightarrow> (case signal_handler s of (e, s') \<Rightarrow> (Some e, s'))
      | FetchRaises e \<Rightarrow> (Some e, s)
      | Response status_code reason url header parsed \<Rightarrow>
          (case raise_for_status status_code reason url of
             Some e \<Rightarrow> (Some e, s)
           | None \<Rightarrow>
               let content_type = lower header
               in if \<not> contains content_type ''text/html''
                  then (None, record_page current_url (SkippedNonHtml content_type) s)
                  else
                    (case parsed of
                       ParseRaises e \<Rightarrow> (Some e, s)
                     | Parsed soup \<Rightarrow> process_soup w current_url soup s
                     | ParsedAfterSigint soup \<Rightarrow>
                         process_soup w current_url soup (snd (signal_handler s)))))"

text \<open>What one pass through the loop leaves behind: the queue was empty, the loop goes
  on, an exception of class \<open>Exception\<close> leaves \<open>crawl\<close>, or \<open>SystemExit\<close> does.\<close>

datatype iteration =
    Drained
  | Next crawl_state
  | Fails string string crawl_state
  | Exits int crawl_state

text \<open>The \<open>except\<close> clauses, in their order.\<close>

fun except_clauses :: "string \<Rightarrow> raised option \<times> crawl_state \<Rightarrow> iteration" where
  "except_clauses current_url (None, s) = Next s"
| "except_clauses current_url (Some Timeout, s) =
     Next (record_page current_url (Error ''Request timed out'') s)"
| "except_clauses current_url (Some (RequestException msg), s) =
     Next (record_page current_url (Error msg) s)"
| "except_clauses current_url (Some (Exception name msg), s) =
     Next (record_page current_url (ProcessingError (name @ '': '' @ msg)) s)"
| "except_clauses current_url (Some KeyboardInterrupt, s) = Exits 1 (save_data s)"
| "except_clauses current_url (Some (SystemExit n), s) = Exits n s"

definition crawl_iteration :: "world \<Rightarrow> crawl_state \<Rightarrow> iteration" where
  "crawl_iteration w s =
     (case queue s of
        [] \<Rightarrow> Drained
      | url # rest \<Rightarrow>
          (case clean_dequeued url of
             None \<Rightarrow> Fails ''ValueError'' (urlparse_error url) (s\<lparr>queue := rest\<rparr>)
           | Some current_url \<Rightarrow>
               if current_url \<in> visited_urls s then Next (s\<lparr>queue := rest\<rparr>)
               else except_clauses current_url
                      (try_body w current_url
                         (s\<lparr>queue := rest,
                            visited_urls := insert current_url (visited_urls s)\<rparr>))))"

text \<open>How \<open>crawl\<close> ends.\<close>

datatype crawl_end =
    Returned
  | Failed string string
  | Exited int

text \<open>\<open>while queue:\<close> with a bound on the number of passes; \<open>None\<close> when the bound is
  reached before the loop ends.\<close>

fun crawl_loop :: "nat \<Rightarrow> world \<Rightarrow> crawl_state \<Rightarrow> (crawl_end \<times> crawl_state) option" where
  "crawl_loop 0 w s = None"
| "crawl_loop (Suc n) w s =
     (case crawl_iteration w s of
        Drained \<Rightarrow> Some (Returned, s)
      | Next s' \<Rightarrow> crawl_loop n w s'
      | Fails name msg s' \<Rightarrow> Some (Failed name msg, s')
      | Exits k s' \<Rightarrow> Some (Exited k, s'))"

text \<open>The state at the start of pass \<open>n\<close>, when the loop gets that far.\<close>

fun state_at :: "nat \<Rightarrow> world \<Rightarrow> crawl_state \<Rightarrow> crawl_state option" where
  "state_at 0 w s = Some s"
| "state_at (Suc n) w s =
     (case crawl_iteration w s of
        Next s' \<Rightarrow> state_at n w s'
      | Drained \<Rightarrow> None
      | Fails name msg s' \<Rightarrow> None
      | Exits k s' \<Rightarrow> None)"

section \<open>The main block\<close>

text \<open>
  \<open>try: crawl(START_URL)\<close>, \<open>except Exception\<close> (which prints and goes on), \<open>finally:
  save_data(...)\<close>. The result is the final state and the exit status of the process:
  0 when the script runs to its end, the argument of \<open>sys.exit\<close> when \<open>SystemExit\<close>
  reaches the top.
\<close>

fun main_block :: "crawl_end \<times> crawl_state \<Rightarrow> crawl_state \<times> int" where
  "main_block (Returned, s) = (save_data s, 0)"
| "main_block (Failed name msg, s) = (save_data s, 0)"
| "main_block (Exited k, s) = (save_data s, k)"

definition run :: "nat \<Rightarrow> world \<Rightarrow> (crawl_state \<times> int) option" where
  "run n w = map_option main_block (crawl_loop n w (initial_state START_URL))"


section \<open>The specification's wording\<close>

text \<open>
  The specification's \<open>isInScope\<close>: the scheme is http or https, the host equals the
  allowed host, and the path, without the query string, does not end in a denylisted
  extension. The host is the network location without user information and port
  (bracketed addresses are left aside). The definition is compared below with
  \<open>is_valid_url\<close>, the filter of the source.
\<close>

definition host_of :: "string \<Rightarrow> string" where
  "host_of nl = before (CHR '':'') (rev (before (CHR ''@'') (rev nl)))"

definition is_in_scope_spec :: "string \<Rightarrow> string \<Rightarrow> bool" where
  "is_in_scope_spec url allowed_host =
     (case urlparse url of
        None \<Rightarrow> False
      | Some parsed \<Rightarrow>
          scheme parsed \<in> {''http'', ''https''} \<and>
          host_of (netloc parsed) = allowed_host \<and>
          \<not> endswith_any (path parsed) excluded_extensions)"

text \<open>
  The specification's boilerplate removal: the text nodes of a tree that are not inside
  an element satisfying \<open>p\<close>, and \<open>matches_any\<close>, which says that an element matches one
  of a list of selectors.
\<close>

fun strings_outside :: "(node \<Rightarrow> bool) \<Rightarrow> node \<Rightarrow> string list" where
  "strings_outside p (NavigableString s) = [s]"
| "strings_outside p (Special s) = []"
| "strings_outside p (Tag n a cs) =
     concat (map (strings_outside p) (filter (\<lambda>c. \<not> p c) cs))"

definition matches_any :: "string list \<Rightarrow> node \<Rightarrow> bool" where
  "matches_any sels n \<longleftrightarrow>
     list_ex (\<lambda>sel. case css_compile sel of None \<Rightarrow> False | Some c \<Rightarrow> compound_matches c n) sels"

section \<open>Predicates on crawl states\<close>

text \<open>
  What holds of the state whenever the loop is about to take a URL from the queue: the
  keys of \<open>crawl_data\<close> are visited and pairwise different, the counter equals the
  number of entries, and the last save did not come after the current count.
\<close>

definition consistent :: "crawl_state \<Rightarrow> bool" where
  "consistent s \<longleftrightarrow>
     fst ` set (crawl_data s) \<subseteq> visited_urls s \<and>
     distinct (map fst (crawl_data s)) \<and>
     pages_crawled s = int (length (crawl_data s)) \<and>
     last_save_count s \<le> pages_crawled s"

text \<open>What a pass that records a result for \<open>u\<close> does to the state.\<close>

definition recorded :: "string \<Rightarrow> crawl_state \<Rightarrow> crawl_state \<Rightarrow> bool" where
  "recorded u s s' \<longleftrightarrow>
     visited_urls s' = visited_urls s \<and>
     (\<exists>r. crawl_data s' = AList.update u r (crawl_data s)) \<and>
     pages_crawled s' = pages_crawled s + 1 \<and>
     (last_save_count s' = last_save_count s \<or> last_save_count s' = pages_crawled s')"

text \<open>A failure on \<open>u\<close> is recovered: the pass ends with \<open>u\<close> visited, the result \<open>r\<close>
  stored under \<open>u\<close>, one more page counted, no checkpoint written and the rest of the
  queue still to be crawled, and the loop goes on: the state at the start of the next pass is the state
  that this pass leaves, every bounded run of the loop from here is the run from that
  state with one pass less, and a run of two passes ends as the next pass does, or not
  yet when the next pass goes on as well.\<close>

definition recovered :: "world \<Rightarrow> crawl_state \<Rightarrow> string \<Rightarrow> crawl_result \<Rightarrow> bool" where
  "recovered w s u r \<longleftrightarrow>
     (\<exists>s'. crawl_iteration w s = Next s' \<and> state_at 1 w s = Some s' \<and>
           queue s' = tl (queue s) \<and> visited_urls s' = insert u (visited_urls s) \<and>
           crawl_data s' = AList.update u r (crawl_data s) \<and>
           map_of (crawl_data s') u = Some r \<and>
           pages_crawled s' = pages_crawled s + 1 \<and>
           last_save_count s' = last_save_count s \<and> output_file s' = output_file s \<and>
           (\<forall>k. crawl_loop (Suc k) w s = crawl_loop k w s') \<and>
           crawl_loop 2 w s =
             (case crawl_iteration w s' of
                Drained \<Rightarrow> Some (Returned, s')
              | Next s'' \<Rightarrow> None
              | Fails name msg s'' \<Rightarrow> Some (Failed name msg, s'')
              | Exits k s'' \<Rightarrow> Some (Exited k, s'')))"

text \<open>The entry of \<open>u\<close> after a pass, when the loop goes on.\<close>

fun entry_after :: "iteration \<Rightarrow> string \<Rightarrow> crawl_result option" where
  "entry_after (Next s) u = map_of (crawl_data s) u"
| "entry_after other u = None"

section \<open>Example inputs\<close>

text \<open>A frontier with one pending URL and one visited URL.\<close>

definition frontier_example :: crawl_state where
  "frontier_example =
     \<lparr>queue = [''https://www.workstream.us/pricing''],
      visited_urls = {''https://www.workstream.us/''},
      pages_crawled = 1,
      crawl_data = [(''https://www.workstream.us/'', Error ''Request timed out'')],
      last_save_count = 0, output_file = []\<rparr>"

text \<open>A stand-in for the second parse that is right on elements whose strings are all
  plain text, which is all that the examples contain: the new document has a copy of
  the element as its only child.\<close>

definition reparse_copy :: "node \<Rightarrow> raised + node" where
  "reparse_copy n = Inr (Tag ''[document]'' [] [n])"

text \<open>A stand-in for \<open>urljoin\<close> that is right on absolute links without dot segments,
  which is all that the examples contain: such a link is returned as it is, and a link
  that does not parse raises.\<close>

definition urljoin_absolute :: "string \<Rightarrow> string \<Rightarrow> string + string" where
  "urljoin_absolute base href =
     (case urlparse href of None \<Rightarrow> Inl (urlparse_error href) | Some p \<Rightarrow> Inr href)"

text \<open>The state of \<open>crawl\<close> once the start URL has been taken from the queue and marked
  as visited.\<close>

definition dequeued_start :: crawl_state where
  "dequeued_start = (initial_state START_URL)\<lparr>queue := [], visited_urls := {START_URL}\<rparr>"

text \<open>A page with the primary landmark, a bare \<open>main\<close>, the wrapper \<open>div\<close> and a body;
  a page with a body only; a page whose only link has an unmatched bracket.\<close>

definition landmark_page :: node where
  "landmark_page =
     Tag ''[document]'' []
       [Tag ''html'' []
          [Tag ''head'' [] [Tag ''title'' [] [NavigableString '' Pricing '']],
           Tag ''body'' []
             [Tag ''header'' [] [NavigableString ''Menu''],
              Tag ''div'' [(''class'', ''body-container-wrapper'')]
                [Tag ''main'' [] [NavigableString ''Teaser'']],
              Tag ''main'' [(''id'', ''main-content'')]
                [Tag ''nav'' [] [NavigableString ''Crumbs''],
                 Tag ''p'' [] [NavigableString '' Hello World '']]]]]"

definition plain_page :: node where
  "plain_page =
     Tag ''[document]'' []
       [Tag ''html'' []
          [Tag ''body'' []
             [Tag ''header'' [] [NavigableString ''Menu''],
              Tag ''p'' [] [NavigableString ''Hello'']]]]"

definition bad_link_page :: node where
  "bad_link_page =
     Tag ''[document]'' []
       [Tag ''main'' [(''id'', ''main-content'')]
          [NavigableString ''Hello'', Tag ''a'' [(''href'', ''http://['')] []]]"

text \<open>Worlds: the operator interrupts the first request; every request times out;
  every connection is refused; every answer has the status 404; every body is
  rejected by the parsers; every page is the page with a body only; every page has the
  link that does not parse; every answer has the status 300 and the page with the
  primary landmark; every answer has the status 304, no content type and an empty
  body; the request for the start URL times out and every other answer has the status
  503; the interrupt arrives while the first parser runs.\<close>

definition interrupt_world :: world where
  "interrupt_world =
     \<lparr>fetch = (\<lambda>u. Sigint), urljoin = urljoin_absolute, reparse = reparse_copy\<rparr>"

definition timeout_world :: world where
  "timeout_world =
     \<lparr>fetch = (\<lambda>u. FetchRaises Timeout), urljoin = urljoin_absolute,
      reparse = reparse_copy\<rparr>"

definition refused_world :: world where
  "refused_world =
     \<lparr>fetch = (\<lambda>u. FetchRaises (RequestException ''Connection refused'')),
      urljoin = urljoin_absolute, reparse = reparse_copy\<rparr>"

definition not_found_world :: world where
  "not_found_world =
     \<lparr>fetch = (\<lambda>u. Response 404 ''Not Found'' u ''text/html'' (Parsed plain_page)),
      urljoin = urljoin_absolute, reparse = reparse_copy\<rparr>"

definition unparsable_world :: world where
  "unparsable_world =
     \<lparr>fetch = (\<lambda>u. Response 200 ''OK'' u ''text/html; charset=utf-8''
                      (ParseRaises (Exception ''ParserRejectedMarkup'' ''bad markup''))),
      urljoin = urljoin_absolute, reparse = reparse_copy\<rparr>"

definition plain_world :: world where
  "plain_world =
     \<lparr>fetch = (\<lambda>u. Response 200 ''OK'' u ''text/html'' (Parsed plain_page)),
      urljoin = urljoin_absolute, reparse = reparse_copy\<rparr>"

definition bad_link_world :: world where
  "bad_link_world =
     \<lparr>fetch = (\<lambda>u. Response 200 ''OK'' u ''text/html'' (Parsed bad_link_page)),
      urljoin = urljoin_absolute, reparse = reparse_copy\<rparr>"

definition multiple_choices_world :: world where
  "multiple_choices_world =
     \<lparr>fetch = (\<lambda>u. Response 300 ''Multiple Choices'' u ''text/html'' (Parsed landmark_page)),
      urljoin = urljoin_absolute, reparse = reparse_copy\<rparr>"

definition not_modified_world :: world where
  "not_modified_world =
     \<lparr>fetch = (\<lambda>u. Response 304 ''Not Modified'' u [] (Parsed (Tag ''[document]'' [] []))),
      urljoin = urljoin_absolute, reparse = reparse_copy\<rparr>"

definition failing_site_world :: world where
  "failing_site_world =
     \<lparr>fetch = (\<lambda>u. if u = START_URL then FetchRaises Timeout
                    else Response 503 ''Service Unavailable'' u ''text/html'' (Parsed plain_page)),
      urljoin = urljoin_absolute, reparse = reparse_copy\<rparr>"

definition parse_interrupt_world :: world where
  "parse_interrupt_world =
     \<lparr>fetch = (\<lambda>u. Response 200 ''OK'' u ''text/html'' (ParsedAfterSigint plain_page)),
      urljoin = urljoin_absolute, reparse = reparse_copy\<rparr>"

text \<open>A state of \<open>crawl\<close> with two URLs in the queue and nothing visited.\<close>

definition two_pending :: crawl_state where
  "two_pending =
     (initial_state START_URL)\<lparr>queue := [START_URL, ''https://www.workstream.us/pricing'']\<rparr>"

text \<open>
  A site that is one long chain: the page at \<open>chain_url k\<close> has the primary landmark
  and one link, to \<open>chain_url (k + 1)\<close>. \<open>chain_state k\<close> is the state of the crawl
  after \<open>k\<close> pages, as long as no checkpoint has been written.
\<close>

definition chain_url :: "nat \<Rightarrow> string" where
  "chain_url k = ''https://www.workstream.us/'' @ replicate k (CHR ''a'')"

definition chain_page :: "string \<Rightarrow> node" where
  "chain_page u =
     Tag ''[document]'' []
       [Tag ''main'' [(''id'', ''main-content'')]
          [NavigableString ''x'', Tag ''a'' [(''href'', u @ ''a'')] []]]"

definition chain_world :: world where
  "chain_world =
     \<lparr>fetch = (\<lambda>u. Response 200 ''OK'' u ''text/html'' (Parsed (chain_page u))),
      urljoin = urljoin_absolute, reparse = reparse_copy\<rparr>"

definition chain_result :: crawl_result where
  "chain_result = Success ''x'' ''No Title Found'' ''main#main-content''"

definition chain_state :: "nat \<Rightarrow> crawl_state" where
  "chain_state k =
     \<lparr>queue = [chain_url k], visited_urls = chain_url ` {..<k}, pages_crawled = int k,
      crawl_data = map (\<lambda>i. (chain_url i, chain_result)) [0..<k],
      last_save_count = 0, output_file = []\<rparr>"

section \<open>Facts about strings\<close>

lemma lower_char_cases:
  "lower_char x = x \<or> (is_letter x \<and> is_letter (lower_char x)) \<or>
   ((192::nat) \<le> of_char x \<and> (224::nat) \<le> of_char (lower_char x))"
proof (cases "map_of (zip ''ABCDEFGHIJKLMNOPQRSTUVWXYZ'' ''abcdefghijklmnopqrstuvwxyz'') x")
  case None
  show ?thesis
  proof (cases "(192::nat) \<le> of_char x \<and> (of_char x :: nat) \<le> 222 \<and> (of_char x :: nat) \<noteq> 215")
    case True
    then have "((of_char x :: nat) + 32) mod 256 = of_char x + 32" by simp
    with None True show ?thesis by (simp add: lower_char_def Let_def)
  next
    case False
    with None show ?thesis by (auto simp: lower_char_def Let_def)
  qed
next
  case (Some d)
  then have "(x, d) \<in> set (zip ''ABCDEFGHIJKLMNOPQRSTUVWXYZ'' ''abcdefghijklmnopqrstuvwxyz'')"
    by (rule map_of_SomeD)
  then have "x \<in> set ''ABCDEFGHIJKLMNOPQRSTUVWXYZ''" "d \<in> set ''abcdefghijklmnopqrstuvwxyz''"
    by (auto dest: set_zip_leftD set_zip_rightD)
  then have "is_letter x" "is_letter d"
    unfolding is_letter_def by auto
  with Some show ?thesis by (simp add: lower_char_def)
qed

lemma lower_char_eq_iff:
  assumes "\<not> is_letter c" "(of_char c :: nat) < 128"
  shows "lower_char x = c \<longleftrightarrow> x = c"
  using lower_char_cases [of x] assms by auto

lemma not_letter_marks:
  "\<not> is_letter (CHR ''?'')" "\<not> is_letter (CHR ''#'')"
  "(of_char (CHR ''?'') :: nat) < 128" "(of_char (CHR ''#'') :: nat) < 128"
  by (simp_all add: is_letter_def)

lemma before_lower:
  "\<not> is_letter c \<Longrightarrow> (of_char c :: nat) < 128 \<Longrightarrow> before c (lower s) = lower (before c s)"
  by (induction s) (simp_all add: before_def lower_def lower_char_eq_iff)

lemma before_absent: "c \<notin> set s \<Longrightarrow> before c s = s"
  by (induction s) (auto simp: before_def)

lemma set_before: "set (before c s) \<subseteq> set s"
  by (auto simp: before_def dest: set_takeWhileD)

lemma lower_mem:
  "\<not> is_letter c \<Longrightarrow> (of_char c :: nat) < 128 \<Longrightarrow> c \<in> set (lower s) \<longleftrightarrow> c \<in> set s"
  by (induction s) (simp_all add: lower_def lower_char_eq_iff eq_commute [of c])



lemma set_after: "set (after c s) \<subseteq> set s"
  by (auto simp: after_def dest: in_set_dropD set_dropWhileD)

lemma before_free: "c \<notin> set (before c s)"
  by (auto simp: before_def dest: set_takeWhileD)

lemma endswith_slash: "endswith s ''/'' \<longleftrightarrow> s \<noteq> [] \<and> last s = CHR ''/''"
proof (cases s rule: rev_cases)
  case Nil
  then show ?thesis by (simp add: endswith_def)
next
  case (snoc ys y)
  then show ?thesis by (auto simp: endswith_def)
qed

lemma endswith_last: "endswith s e \<Longrightarrow> e \<noteq> [] \<Longrightarrow> last s = last e"
  by (metis endswith_def last_drop length_greater_0_conv diff_less less_le_trans
      length_0_conv not_less zero_less_diff drop_eq_Nil)

lemma rstrip_slash_replicate: "\<exists>k. s = rstrip_slash s @ replicate k (CHR ''/'')"
proof -
  have "\<exists>k. xs = replicate k (CHR ''/'') @ dropWhile (\<lambda>c. c = CHR ''/'') xs" for xs :: string
  proof (induction xs)
    case Nil
    show ?case by simp
  next
    case (Cons x xs)
    show ?case
    proof (cases "x = CHR ''/''")
      case True
      from Cons obtain k where "xs = replicate k (CHR ''/'') @ dropWhile (\<lambda>c. c = CHR ''/'') xs"
        by blast
      then have "x # xs = replicate (Suc k) (CHR ''/'') @ dropWhile (\<lambda>c. c = CHR ''/'') (x # xs)"
        using True by simp
      then show ?thesis by blast
    next
      case False
      then have "x # xs = replicate 0 (CHR ''/'') @ dropWhile (\<lambda>c. c = CHR ''/'') (x # xs)"
        by simp
      then show ?thesis by blast
    qed
  qed
  then obtain k where "rev s = replicate k (CHR ''/'') @ dropWhile (\<lambda>c. c = CHR ''/'') (rev s)"
    by blast
  then have "rev (rev s) = rev (replicate k (CHR ''/'') @ dropWhile (\<lambda>c. c = CHR ''/'') (rev s))"
    by simp
  then have "s = rstrip_slash s @ replicate k (CHR ''/'')"
    by (simp add: rstrip_slash_def)
  then show ?thesis ..
qed

lemma rstrip_slash_end: "\<not> endswith (rstrip_slash s) ''/''"
proof -
  have "dropWhile (\<lambda>c. c = CHR ''/'') xs = [] \<or> hd (dropWhile (\<lambda>c. c = CHR ''/'') xs) \<noteq> CHR ''/''"
    for xs :: string
    using hd_dropWhile [of "\<lambda>c. c = CHR ''/''" xs] by auto
  from this [of "rev s"] show ?thesis
    by (auto simp: endswith_slash rstrip_slash_def last_rev)
qed

lemma set_rstrip_slash: "set (rstrip_slash s) \<subseteq> set s"
  by (auto simp: rstrip_slash_def dest: set_dropWhileD)

section \<open>Facts about URLs\<close>

lemma split_params_subset:
  "set (fst (split_params p)) \<subseteq> set p \<and> set (snd (split_params p)) \<subseteq> set p"
proof -
  define seg where "seg = rev (takeWhile (\<lambda>c. c \<noteq> CHR ''/'') (rev p))"
  have seg: "set seg \<subseteq> set p"
    by (auto simp: seg_def dest: set_takeWhileD)
  have tk: "set (take n p) \<subseteq> set p" for n
    by (rule set_take_subset)
  from seg set_before [of "CHR '';''" seg] have b: "set (before (CHR '';'') seg) \<subseteq> set p"
    by blast
  from seg set_after [of "CHR '';''" seg] have a: "set (after (CHR '';'') seg) \<subseteq> set p"
    by blast
  have "split_params p =
      (if CHR '';'' \<in> set seg
       then (take (length p - length seg) p @ before (CHR '';'') seg, after (CHR '';'') seg)
       else (p, []))"
    by (simp add: split_params_def Let_def seg_def)
  with a b tk [of "length p - length seg"] show ?thesis
    by (cases "CHR '';'' \<in> set seg") simp_all
qed

lemma urlparse_no_hash:
  assumes "urlparse u = Some p"
  shows "CHR ''#'' \<notin> set (scheme p) \<and> CHR ''#'' \<notin> set (netloc p) \<and>
         CHR ''#'' \<notin> set (path p) \<and> CHR ''#'' \<notin> set (params p) \<and>
         CHR ''#'' \<notin> set (query p)"
proof -
  obtain sch r1 where ss: "split_scheme (clean_url u) = (sch, r1)"
    by (cases "split_scheme (clean_url u)")
  obtain nl r2 where sn: "split_netloc r1 = (nl, r2)"
    by (cases "split_netloc r1")
  define r3 where "r3 = before (CHR ''#'') r2"
  define pq where "pq = before (CHR ''?'') r3"
  have r3: "CHR ''#'' \<notin> set r3"
    by (simp add: r3_def before_free)
  with set_before [of "CHR ''?''" r3] have pq: "CHR ''#'' \<notin> set pq"
    by (auto simp: pq_def)
  from r3 set_after [of "CHR ''?''" r3] have q: "CHR ''#'' \<notin> set (after (CHR ''?'') r3)"
    by auto
  have "CHR ''#'' \<notin> scheme_chars"
    by (simp add: scheme_chars_def)
  with ss have sch: "CHR ''#'' \<notin> set sch"
    by (auto simp: split_scheme_def Let_def lower_mem not_letter_marks split: if_splits)
  from sn have nl: "CHR ''#'' \<notin> set nl"
    by (auto simp: split_netloc_def is_delim_def split: if_splits dest: set_takeWhileD)
  from pq split_params_subset [of pq]
  have sp: "CHR ''#'' \<notin> set (fst (split_params pq))" "CHR ''#'' \<notin> set (snd (split_params pq))"
    by auto
  from assms ss sn have
    "p = \<lparr>scheme = sch, netloc = nl,
          path = fst (if sch \<in> set uses_params \<and> CHR '';'' \<in> set pq then split_params pq else (pq, [])),
          params = snd (if sch \<in> set uses_params \<and> CHR '';'' \<in> set pq then split_params pq else (pq, [])),
          query = after (CHR ''?'') r3, fragment = after (CHR ''#'') r2\<rparr>"
    by (auto simp: urlparse_def Let_def r3_def pq_def split: if_splits prod.splits)
  with sch nl pq q sp show ?thesis
    by (cases "sch \<in> set uses_params \<and> CHR '';'' \<in> set pq") simp_all
qed

lemma geturl_no_hash:
  assumes "CHR ''#'' \<notin> set (scheme r)" "CHR ''#'' \<notin> set (netloc r)" "CHR ''#'' \<notin> set (path r)"
    "CHR ''#'' \<notin> set (params r)" "CHR ''#'' \<notin> set (query r)" "fragment r = []"
  shows "CHR ''#'' \<notin> set (geturl r)"
  using assms by (simp add: geturl_def Let_def)

lemma allowed_domain: "ALLOWED_DOMAIN = ''www.workstream.us''"
  by code_simp

lemma is_valid_url_unfold:
  "is_valid_url u \<longleftrightarrow>
     (\<exists>p. urlparse u = Some p \<and> scheme p \<in> {''http'', ''https''} \<and>
          netloc p = ALLOWED_DOMAIN \<and> CHR ''#'' \<notin> set u \<and>
          \<not> endswith_any (lower (before (CHR ''?'') u)) excluded_extensions)"
proof (cases "urlparse u")
  case None
  then show ?thesis by (simp add: is_valid_url_def)
next
  case (Some p)
  show ?thesis
  proof (cases "CHR ''#'' \<in> set u")
    case True
    with Some show ?thesis by (simp add: is_valid_url_def)
  next
    case False
    then have "CHR ''#'' \<notin> set (lower (before (CHR ''?'') u))"
      using set_before [of "CHR ''?''" u] by (auto simp: lower_mem not_letter_marks)
    then have "before (CHR ''#'') (before (CHR ''?'') (lower u)) =
        lower (before (CHR ''?'') u)"
      by (simp add: before_lower before_absent not_letter_marks)
    with Some False show ?thesis by (simp add: is_valid_url_def)
  qed
qed

section \<open>Facts about one pass through the loop\<close>

lemma length_update_new:
  "k \<notin> fst ` set al \<Longrightarrow> length (AList.update k v al) = Suc (length al)"
  by (induction al) auto

lemma update_fresh: "k \<notin> fst ` set al \<Longrightarrow> AList.update k v al = al @ [(k, v)]"
  by (induction al) auto

lemma enqueue_keeps:
  "visited_urls (enqueue a s) = visited_urls s"
  "crawl_data (enqueue a s) = crawl_data s"
  "pages_crawled (enqueue a s) = pages_crawled s"
  "last_save_count (enqueue a s) = last_save_count s"
  "output_file (enqueue a s) = output_file s"
  by (simp_all add: enqueue_def)

lemma queue_links_keeps:
  "visited_urls (snd (queue_links w u hs s)) = visited_urls s \<and>
   crawl_data (snd (queue_links w u hs s)) = crawl_data s \<and>
   pages_crawled (snd (queue_links w u hs s)) = pages_crawled s \<and>
   last_save_count (snd (queue_links w u hs s)) = last_save_count s \<and>
   output_file (snd (queue_links w u hs s)) = output_file s"
  by (induction hs arbitrary: s) (simp_all add: enqueue_keeps split: option.splits sum.splits)

lemma periodic_save_keeps:
  "visited_urls (periodic_save s) = visited_urls s"
  "crawl_data (periodic_save s) = crawl_data s"
  "pages_crawled (periodic_save s) = pages_crawled s"
  "queue (periodic_save s) = queue s"
  by (simp_all add: periodic_save_def save_data_def)

lemma periodic_save_count:
  "last_save_count (periodic_save s) = last_save_count s \<or>
   last_save_count (periodic_save s) = pages_crawled s"
  by (simp add: periodic_save_def save_data_def)

lemma process_soup_shape:
  assumes "process_soup w u soup s = (r, s')"
  shows "visited_urls s' = visited_urls s \<and>
         (case r of
            None \<Rightarrow> recorded u s s'
          | Some e \<Rightarrow> pages_crawled s' = pages_crawled s \<and>
                      last_save_count s' = last_save_count s \<and>
                      (crawl_data s' = crawl_data s \<or>
                       (\<exists>x. crawl_data s' = AList.update u x (crawl_data s))))"
proof (cases "extract_text (reparse w) soup")
  case (Inl e)
  with assms show ?thesis by (auto simp: process_soup_def)
next
  case (Inr tm)
  obtain page_text how where tm: "tm = (page_text, how)" by (cases tm)
  define s1 where "s1 = store u (Success page_text (page_title_of soup) how) s"
  obtain r2 s2 where ql: "queue_links w u (anchor_hrefs soup) s1 = (r2, s2)"
    by (cases "queue_links w u (anchor_hrefs soup) s1")
  have keep: "visited_urls s2 = visited_urls s1" "crawl_data s2 = crawl_data s1"
    "pages_crawled s2 = pages_crawled s1" "last_save_count s2 = last_save_count s1"
    using queue_links_keeps [of w u "anchor_hrefs soup" s1] ql by simp_all
  have s1: "visited_urls s1 = visited_urls s" "pages_crawled s1 = pages_crawled s"
    "last_save_count s1 = last_save_count s"
    "crawl_data s1 = AList.update u (Success page_text (page_title_of soup) how) (crawl_data s)"
    by (simp_all add: s1_def store_def)
  show ?thesis
  proof (cases r2)
    case None
    with assms Inr tm ql have r: "r = None"
      and s': "s' = periodic_save (s2\<lparr>pages_crawled := pages_crawled s2 + 1\<rparr>)"
      by (auto simp: process_soup_def Let_def s1_def)
    from periodic_save_count [of "s2\<lparr>pages_crawled := pages_crawled s2 + 1\<rparr>"]
    show ?thesis
      unfolding r s' recorded_def
      by (auto simp: periodic_save_keeps keep s1)
  next
    case (Some e)
    with assms Inr tm ql have "r = Some e" "s' = s2"
      by (auto simp: process_soup_def Let_def s1_def)
    then show ?thesis by (auto simp: keep s1)
  qed
qed

lemma record_page_recorded: "recorded u s (record_page u r s)"
  by (auto simp: recorded_def record_page_def store_def)

lemma try_body_shape:
  assumes "try_body w u s = (r, s')"
  shows "visited_urls s' = visited_urls s \<and>
         (case r of
            None \<Rightarrow> recorded u s s'
          | Some e \<Rightarrow> pages_crawled s' = pages_crawled s \<and>
                      last_save_count s' = last_save_count s \<and>
                      (crawl_data s' = crawl_data s \<or>
                       (\<exists>x. crawl_data s' = AList.update u x (crawl_data s))))"
proof (cases "fetch w u")
  case Sigint
  with assms show ?thesis
    by (auto simp: try_body_def signal_handler_def save_data_def)
next
  case (FetchRaises e)
  with assms show ?thesis by (auto simp: try_body_def)
next
  case (Response status_code reason final_url header parsed)
  show ?thesis
  proof (cases "raise_for_status status_code reason final_url")
    case (Some e)
    with assms Response have "r = Some e" "s' = s" by (simp_all add: try_body_def)
    then show ?thesis by simp
  next
    case None
    show ?thesis
    proof (cases "contains (lower header) ''text/html''")
      case False
      with assms Response None show ?thesis
        using record_page_recorded [of u s "SkippedNonHtml (lower header)"]
        by (auto simp: try_body_def Let_def recorded_def)
    next
      case True
      show ?thesis
      proof (cases parsed)
        case (Parsed soup)
        with assms Response None True have "process_soup w u soup s = (r, s')"
          by (simp add: try_body_def Let_def)
        from process_soup_shape [OF this] show ?thesis .
      next
        case (ParsedAfterSigint soup)
        with assms Response None True have "process_soup w u soup (save_data s) = (r, s')"
          by (simp add: try_body_def Let_def signal_handler_def)
        from process_soup_shape [OF this] show ?thesis
          by (cases r) (auto simp: save_data_def recorded_def)
      next
        case (ParseRaises e)
        with assms Response None True show ?thesis by (auto simp: try_body_def Let_def)
      qed
    qed
  qed
qed

lemma except_clauses_recorded:
  assumes "except_clauses u (try_body w u s) = Next s'"
  shows "recorded u s s'"
proof -
  obtain r s1 where tb: "try_body w u s = (r, s1)" by (cases "try_body w u s")
  note sh = try_body_shape [OF tb]
  show ?thesis
  proof (cases r)
    case None
    with assms tb sh show ?thesis by simp
  next
    case (Some e)
    with sh have v: "visited_urls s1 = visited_urls s" and p: "pages_crawled s1 = pages_crawled s"
      and l: "last_save_count s1 = last_save_count s"
      and d: "crawl_data s1 = crawl_data s \<or> (\<exists>x. crawl_data s1 = AList.update u x (crawl_data s))"
      by simp_all
    from assms tb Some obtain x where "s' = record_page u x s1"
      by (cases e) auto
    with v p l d show ?thesis
      by (auto simp: recorded_def record_page_def store_def)
  qed
qed

lemma recorded_consistent:
  assumes "recorded u s' s''" "consistent s" "u \<notin> visited_urls s"
    "visited_urls s' = insert u (visited_urls s)" "crawl_data s' = crawl_data s"
    "pages_crawled s' = pages_crawled s" "last_save_count s' = last_save_count s"
  shows "consistent s''"
proof -
  from assms(2,3) have new: "u \<notin> fst ` set (crawl_data s)"
    by (auto simp: consistent_def)
  from assms(1) obtain r where d: "crawl_data s'' = AList.update u r (crawl_data s')"
    by (auto simp: recorded_def)
  from assms new d show ?thesis
    by (auto simp: consistent_def recorded_def dom_update distinct_update length_update_new)
qed

lemma iteration_consistent:
  assumes "crawl_iteration w s = Next s'" "consistent s"
  shows "consistent s'"
proof (cases "queue s")
  case Nil
  with assms show ?thesis by (simp add: crawl_iteration_def)
next
  case (Cons url rest)
  show ?thesis
  proof (cases "clean_dequeued url")
    case None
    with assms Cons show ?thesis by (simp add: crawl_iteration_def)
  next
    case (Some u)
    show ?thesis
    proof (cases "u \<in> visited_urls s")
      case True
      with assms Cons Some have "s' = s\<lparr>queue := rest\<rparr>"
        by (simp add: crawl_iteration_def)
      with assms(2) show ?thesis by (simp add: consistent_def)
    next
      case False
      define s0 where "s0 = s\<lparr>queue := rest, visited_urls := insert u (visited_urls s)\<rparr>"
      from assms Cons Some False have "except_clauses u (try_body w u s0) = Next s'"
        by (simp add: crawl_iteration_def s0_def)
      from except_clauses_recorded [OF this] have "recorded u s0 s'" .
      from recorded_consistent [OF this assms(2) False] show ?thesis
        by (simp add: s0_def)
    qed
  qed
qed

lemma initial_consistent: "consistent (initial_state u)"
  by (simp add: consistent_def initial_state_def)

lemma state_at_consistent:
  "consistent s \<Longrightarrow> state_at n w s = Some s' \<Longrightarrow> consistent s'"
proof (induction n arbitrary: s)
  case 0
  then show ?case by simp
next
  case (Suc n)
  then show ?case
    by (cases "crawl_iteration w s") (auto dest: iteration_consistent)
qed

lemma iteration_shape:
  assumes "crawl_iteration w s = Next s'"
  shows "(crawl_data s' = crawl_data s \<and> pages_crawled s' = pages_crawled s \<and>
          visited_urls s' = visited_urls s \<and> last_save_count s' = last_save_count s \<and>
          output_file s' = output_file s) \<or>
         (\<exists>u. u \<notin> visited_urls s \<and> visited_urls s' = insert u (visited_urls s) \<and>
              (\<exists>r. crawl_data s' = AList.update u r (crawl_data s)) \<and>
              pages_crawled s' = pages_crawled s + 1)"
proof (cases "queue s")
  case Nil
  with assms show ?thesis by (simp add: crawl_iteration_def)
next
  case (Cons url rest)
  show ?thesis
  proof (cases "clean_dequeued url")
    case None
    with assms Cons show ?thesis by (simp add: crawl_iteration_def)
  next
    case (Some u)
    show ?thesis
    proof (cases "u \<in> visited_urls s")
      case True
      with assms Cons Some have "s' = s\<lparr>queue := rest\<rparr>"
        by (simp add: crawl_iteration_def)
      then show ?thesis by simp
    next
      case False
      define s0 where "s0 = s\<lparr>queue := rest, visited_urls := insert u (visited_urls s)\<rparr>"
      from assms Cons Some False have "except_clauses u (try_body w u s0) = Next s'"
        by (simp add: crawl_iteration_def s0_def)
      from except_clauses_recorded [OF this] have "recorded u s0 s'" .
      with False show ?thesis
        by (auto simp: recorded_def s0_def)
    qed
  qed
qed

lemma iteration_keeps_entries:
  assumes "crawl_iteration w s = Next s'" "consistent s" "map_of (crawl_data s) k = Some r"
  shows "map_of (crawl_data s') k = Some r"
proof -
  from assms(3) have "k \<in> fst ` set (crawl_data s)"
    by (metis domI dom_map_of_conv_image_fst)
  with assms(2) have k: "k \<in> visited_urls s"
    by (auto simp: consistent_def)
  from iteration_shape [OF assms(1)] show ?thesis
  proof
    assume "crawl_data s' = crawl_data s \<and> pages_crawled s' = pages_crawled s \<and>
          visited_urls s' = visited_urls s \<and> last_save_count s' = last_save_count s \<and>
          output_file s' = output_file s"
    with assms(3) show ?thesis by simp
  next
    assume "\<exists>u. u \<notin> visited_urls s \<and> visited_urls s' = insert u (visited_urls s) \<and>
              (\<exists>r. crawl_data s' = AList.update u r (crawl_data s)) \<and>
              pages_crawled s' = pages_crawled s + 1"
    then obtain u x where "u \<notin> visited_urls s" "crawl_data s' = AList.update u x (crawl_data s)"
      by blast
    with k assms(3) show ?thesis
      by (auto simp: update_conv')
  qed
qed

lemma state_at_keeps_entries:
  "consistent s \<Longrightarrow> state_at m w s = Some s' \<Longrightarrow> map_of (crawl_data s) k = Some r \<Longrightarrow>
   map_of (crawl_data s') k = Some r"
proof (induction m arbitrary: s)
  case 0
  then show ?case by simp
next
  case (Suc m)
  from Suc.prems(2) obtain s1 where step: "crawl_iteration w s = Next s1"
    and rest: "state_at m w s1 = Some s'"
    by (cases "crawl_iteration w s") auto
  from iteration_consistent [OF step Suc.prems(1)] have c1: "consistent s1" .
  from iteration_keeps_entries [OF step Suc.prems(1) Suc.prems(3)]
  have "map_of (crawl_data s1) k = Some r" .
  from Suc.IH [OF c1 rest this] show ?case .
qed

lemma process_soup_done:
  assumes "process_soup w u soup s = (None, s')"
  shows "\<exists>s2. s' = periodic_save s2 \<and> pages_crawled s2 = pages_crawled s + 1 \<and>
              last_save_count s2 = last_save_count s \<and> output_file s2 = output_file s"
proof (cases "extract_text (reparse w) soup")
  case (Inl e)
  with assms show ?thesis by (simp add: process_soup_def)
next
  case (Inr tm)
  obtain page_text how where tm: "tm = (page_text, how)" by (cases tm)
  define s1 where "s1 = store u (Success page_text (page_title_of soup) how) s"
  obtain r2 s2 where ql: "queue_links w u (anchor_hrefs soup) s1 = (r2, s2)"
    by (cases "queue_links w u (anchor_hrefs soup) s1")
  have keep: "pages_crawled s2 = pages_crawled s" "last_save_count s2 = last_save_count s"
    "output_file s2 = output_file s"
    using queue_links_keeps [of w u "anchor_hrefs soup" s1] ql
    by (simp_all add: s1_def store_def)
  from assms Inr tm ql have "r2 = None"
    and "s' = periodic_save (s2\<lparr>pages_crawled := pages_crawled s2 + 1\<rparr>)"
    by (auto simp: process_soup_def Let_def s1_def split: option.splits)
  with keep show ?thesis by auto
qed

lemma try_body_done:
  assumes "try_body w u s = (None, s')" "map_of (crawl_data s') u = Some (Success t ti m)"
  shows "\<exists>s2. s' = periodic_save s2 \<and> pages_crawled s2 = pages_crawled s + 1 \<and>
              last_save_count s2 = last_save_count s \<and>
              length (output_file s) \<le> length (output_file s2)"
proof (cases "fetch w u")
  case Sigint
  with assms show ?thesis by (simp add: try_body_def signal_handler_def)
next
  case (FetchRaises e)
  with assms show ?thesis by (simp add: try_body_def)
next
  case (Response status_code reason final_url header parsed)
  show ?thesis
  proof (cases "raise_for_status status_code reason final_url")
    case (Some e)
    with assms Response show ?thesis by (simp add: try_body_def)
  next
    case None
    show ?thesis
    proof (cases "contains (lower header) ''text/html''")
      case False
      with assms Response None show ?thesis
        by (auto simp: try_body_def Let_def record_page_def store_def update_conv')
    next
      case True
      show ?thesis
      proof (cases parsed)
        case (Parsed soup)
        with assms Response None True have "process_soup w u soup s = (None, s')"
          by (simp add: try_body_def Let_def)
        from process_soup_done [OF this] show ?thesis by auto
      next
        case (ParsedAfterSigint soup)
        with assms Response None True have "process_soup w u soup (save_data s) = (None, s')"
          by (simp add: try_body_def Let_def signal_handler_def)
        from process_soup_done [OF this] show ?thesis
          by (auto simp: save_data_def)
      next
        case (ParseRaises e)
        with assms Response None True show ?thesis by (simp add: try_body_def Let_def)
      qed
    qed
  qed
qed

lemma except_clauses_done:
  assumes "except_clauses u (try_body w u s) = Next s'"
    "map_of (crawl_data s') u = Some (Success t ti m)"
  shows "try_body w u s = (None, s')"
proof -
  obtain r s1 where tb: "try_body w u s = (r, s1)" by (cases "try_body w u s")
  show ?thesis
  proof (cases r)
    case None
    with assms tb show ?thesis by simp
  next
    case (Some e)
    with assms(1) tb obtain x where "s' = record_page u x s1" "\<forall>a b c. x \<noteq> Success a b c"
      by (cases e) auto
    with assms(2) show ?thesis
      by (auto simp: record_page_def store_def update_conv')
  qed
qed

lemma process_soup_data:
  assumes "extract_text (reparse w) soup = Inr (page_text, how)"
  shows "crawl_data (snd (process_soup w u soup s)) =
         AList.update u (Success page_text (page_title_of soup) how) (crawl_data s)"
proof -
  define s1 where "s1 = store u (Success page_text (page_title_of soup) how) s"
  obtain r2 s2 where ql: "queue_links w u (anchor_hrefs soup) s1 = (r2, s2)"
    by (cases "queue_links w u (anchor_hrefs soup) s1")
  have "crawl_data s2 = crawl_data s1"
    using queue_links_keeps [of w u "anchor_hrefs soup" s1] ql by simp
  with assms ql show ?thesis
    by (cases r2) (simp_all add: process_soup_def Let_def s1_def [symmetric] periodic_save_keeps,
        simp_all add: s1_def store_def)
qed

lemma http_error_raised:
  assumes "400 \<le> status_code" "status_code < 600"
  shows "raise_for_status status_code reason url =
     Some (RequestException
       (str_int status_code @
        (if status_code < 500 then '' Client Error: '' else '' Server Error: '') @
        reason @ '' for url: '' @ url))"
  using assms by (simp add: raise_for_status_def Let_def)

lemma no_http_error:
  "raise_for_status status_code reason url = None \<longleftrightarrow> \<not> (400 \<le> status_code \<and> status_code < 600)"
  by (auto simp: raise_for_status_def Let_def)

lemma failed_pass_recovered:
  assumes "queue s = url # rest" and "clean_dequeued url = Some u" and "u \<notin> visited_urls s"
    and "try_body w u (s\<lparr>queue := rest, visited_urls := insert u (visited_urls s)\<rparr>) =
           (Some e, s\<lparr>queue := rest, visited_urls := insert u (visited_urls s)\<rparr>)"
    and "except_clauses u (Some e, s\<lparr>queue := rest, visited_urls := insert u (visited_urls s)\<rparr>) =
           Next (record_page u r (s\<lparr>queue := rest, visited_urls := insert u (visited_urls s)\<rparr>))"
  shows "recovered w s u r"
proof -
  define s' where
    "s' = record_page u r (s\<lparr>queue := rest, visited_urls := insert u (visited_urls s)\<rparr>)"
  from assms have it: "crawl_iteration w s = Next s'"
    by (simp add: crawl_iteration_def s'_def)
  have st: "queue s' = tl (queue s)" "visited_urls s' = insert u (visited_urls s)"
    "crawl_data s' = AList.update u r (crawl_data s)" "pages_crawled s' = pages_crawled s + 1"
    "last_save_count s' = last_save_count s" "output_file s' = output_file s"
    using assms(1) by (simp_all add: s'_def record_page_def store_def)
  have two: "crawl_loop 2 w s =
      (case crawl_iteration w s' of
         Drained \<Rightarrow> Some (Returned, s')
       | Next s'' \<Rightarrow> None
       | Fails name msg s'' \<Rightarrow> Some (Failed name msg, s'')
       | Exits k s'' \<Rightarrow> Some (Exited k, s''))"
    using it by (simp add: numeral_2_eq_2 split: iteration.splits)
  from it st two show ?thesis
    unfolding recovered_def by (auto simp: update_conv')
qed

section \<open>Facts about selectors and removal\<close>

lemma all_strings_remove_matching:
  "all_strings (remove_matching p t) = strings_outside p t"
proof (induction t)
  case (Tag n a cs)
  have h: "map (\<lambda>x. all_strings (remove_matching p x)) (filter (\<lambda>c. \<not> p c) cs) =
        map (strings_outside p) (filter (\<lambda>c. \<not> p c) cs)"
    by (rule map_cong) (auto simp: Tag)
  show ?case
    by (simp add: comp_def h)
qed simp_all

lemma compound_matches_remove:
  "compound_matches c (remove_matching p n) = compound_matches c n"
proof -
  have *: "simple_matches x (remove_matching p n) = simple_matches x n" for x
    by (cases n; cases x) (simp_all add: classes_def)
  have "is_element (remove_matching p n) = is_element n"
    by (cases n) simp_all
  with * show ?thesis by (simp add: compound_matches_def)
qed

lemma remove_matching_twice:
  assumes "\<And>n. q (remove_matching p n) = q n"
  shows "remove_matching q (remove_matching p t) = remove_matching (\<lambda>n. p n \<or> q n) t"
proof (induction t)
  case (Tag n a cs)
  have h1: "filter (\<lambda>c. \<not> q c) (map (remove_matching p) (filter (\<lambda>c. \<not> p c) cs)) =
        map (remove_matching p) (filter (\<lambda>c. \<not> (p c \<or> q c)) cs)"
    by (induction cs) (simp_all add: assms)
  have h2: "map (remove_matching q) (map (remove_matching p) (filter (\<lambda>c. \<not> (p c \<or> q c)) cs)) =
        map (remove_matching (\<lambda>n. p n \<or> q n)) (filter (\<lambda>c. \<not> (p c \<or> q c)) cs)"
    unfolding map_map by (rule map_cong) (auto simp: Tag)
  show ?case
    by (simp only: remove_matching.simps h1 h2)
qed simp_all

lemma remove_selectors_all:
  "remove_selectors sels t = Inr t' \<Longrightarrow>
   t' = remove_matching (matches_any sels) t \<and> (\<forall>sel \<in> set sels. css_compile sel \<noteq> None)"
proof (induction sels arbitrary: t)
  case Nil
  have "remove_matching (\<lambda>n. False) x = x" for x
  proof (induction x)
    case (Tag n a cs)
    have h: "map (remove_matching (\<lambda>n. False)) cs = cs"
      by (rule map_idI) (simp add: Tag)
    show ?case by (simp add: h)
  qed simp_all
  with Nil show ?case by (simp add: matches_any_def)
next
  case (Cons sel sels)
  from Cons.prems obtain c where c: "css_compile sel = Some c"
    and rest: "remove_selectors sels (remove_matching (compound_matches c) t) = Inr t'"
    by (auto split: option.splits)
  from Cons.IH [OF rest]
  have t': "t' = remove_matching (matches_any sels) (remove_matching (compound_matches c) t)"
    and ok: "\<forall>sel \<in> set sels. css_compile sel \<noteq> None"
    by simp_all
  have inv: "matches_any sels (remove_matching (compound_matches c) n) = matches_any sels n" for n
    by (simp add: matches_any_def compound_matches_remove cong: option.case_cong)
  have "(\<lambda>n. compound_matches c n \<or> matches_any sels n) = matches_any (sel # sels)"
    by (auto simp: matches_any_def c fun_eq_iff)
  with remove_matching_twice [of "matches_any sels" "compound_matches c" t, OF inv] t' ok c
  show ?case by simp
qed

lemma body_cleanup_raises:
  "remove_selectors body_selectors t = Inl (Exception ''SelectorSyntaxError'' ''#hs-web-interactives-.*'')"
proof -
  have c: "map css_compile body_selectors =
    [Some [TypeSel ''header''], Some [TypeSel ''footer''],
     Some [TypeSel ''nav''], Some [ClassSel ''announcement_bar''],
     Some [TypeSel ''div'', ClassSel ''header_mega_menu''],
     Some [TypeSel ''div'', ClassSel ''header_fixed_manage''],
     Some [TypeSel ''noscript''], Some [TypeSel ''script''],
     Some [TypeSel ''style''], Some [ClassSel ''social-links''],
     Some [IdSel ''sidebar''], Some [ClassSel ''advertisement''],
     Some [ClassSel ''cookie-consent''], Some [ClassSel ''hs-skip-link''],
     None, None,
     Some [TypeSel ''iframe'', AttrTest ''src'' ''*='' ''googletagmanager'']]"
    by code_simp
  note cs = c [unfolded body_selectors_def, simplified]
  show ?thesis
    unfolding body_selectors_def by (simp add: cs)
qed

lemma wrapper_selectors_compile: "\<forall>sel \<in> set wrapper_selectors. css_compile sel \<noteq> None"
  by code_simp

lemma wrapper_cleanup_succeeds:
  "remove_selectors wrapper_selectors t = Inr (remove_matching (matches_any wrapper_selectors) t)"
proof -
  have "remove_selectors sels t \<noteq> Inl e" if "\<forall>sel \<in> set sels. css_compile sel \<noteq> None" for sels e t
    using that by (induction sels arbitrary: t) (auto split: option.splits)
  with wrapper_selectors_compile obtain t' where "remove_selectors wrapper_selectors t = Inr t'"
    by (cases "remove_selectors wrapper_selectors t") auto
  with remove_selectors_all [OF this] show ?thesis by simp
qed

section \<open>The chain of pages\<close>

text \<open>The crawl of the chain goes from \<open>chain_state k\<close> to \<open>chain_state (k + 1)\<close>, with
  the periodic save where it is due.\<close>

lemma chain_url_inj: "chain_url i = chain_url j \<longleftrightarrow> i = j"
proof
  assume "chain_url i = chain_url j"
  then have "length (chain_url i) = length (chain_url j)" by simp
  then show "i = j" by (simp add: chain_url_def)
qed simp

lemma chain_url_Suc: "chain_url k @ ''a'' = chain_url (Suc k)"
  by (simp add: chain_url_def replicate_append_same)

lemma urlparse_chain_url:
  "urlparse (chain_url k) =
     Some \<lparr>scheme = ''https'', netloc = ''www.workstream.us'',
           path = ''/'' @ replicate k (CHR ''a''), params = [], query = [], fragment = []\<rparr>"
  by (simp add: urlparse_def clean_url_def chain_url_def split_scheme_def split_netloc_def
      is_delim_def bad_brackets_def netloc_error_def before_def after_def Let_def scheme_chars_def lower_def
      lower_char_def is_letter_def takeWhile_replicate dropWhile_replicate)

lemma last_chain_url: "last (chain_url (Suc k)) = CHR ''a''"
  by (simp add: chain_url_def)

lemma chain_url_not_slash: "\<not> endswith (chain_url (Suc k)) ''/''"
  by (simp add: endswith_slash last_chain_url)

lemma clean_dequeued_chain: "clean_dequeued (chain_url k) = Some (chain_url k)"
proof (cases k)
  case 0
  then show ?thesis by (simp add: clean_dequeued_def urlparse_chain_url)
next
  case (Suc j)
  then show ?thesis
    by (simp add: clean_dequeued_def urlparse_chain_url chain_url_not_slash)
qed

lemma geturl_chain:
  "geturl \<lparr>scheme = ''https'', netloc = ''www.workstream.us'',
           path = ''/'' @ replicate k (CHR ''a''), params = [], query = [], fragment = []\<rparr> =
   chain_url k"
  by (simp add: geturl_def chain_url_def)

lemma normalize_chain: "normalize_link (chain_url (Suc k)) = Some (chain_url (Suc k))"
  by (simp add: normalize_link_def urlparse_chain_url geturl_chain chain_url_not_slash
      del: replicate.simps append.simps)

lemma strip_chain: "strip (chain_url (Suc k)) = chain_url (Suc k)"
proof -
  have 1: "dropWhile is_space (chain_url (Suc k)) = chain_url (Suc k)"
    by (simp add: chain_url_def is_space_def)
  have "rev (chain_url (Suc k)) = CHR ''a'' # rev (chain_url k)"
    unfolding chain_url_Suc [symmetric] by simp
  then have 2: "dropWhile is_space (rev (chain_url (Suc k))) = rev (chain_url (Suc k))"
    by (simp add: is_space_def)
  show ?thesis
    by (simp add: strip_def 1 2)
qed

lemma lower_chain: "lower (chain_url k) = chain_url k"
  by (simp add: lower_def chain_url_def lower_char_def Let_def)

lemma chain_url_marks: "CHR ''#'' \<notin> set (chain_url k)" "CHR ''?'' \<notin> set (chain_url k)"
  by (simp_all add: chain_url_def)

lemma chain_url_no_extension:
  "\<not> endswith_any (chain_url (Suc k)) excluded_extensions"
proof -
  have "\<not> endswith (chain_url (Suc k)) e" if "e \<noteq> []" "last e \<noteq> CHR ''a''" for e
    using endswith_last [of "chain_url (Suc k)" e] that by (auto simp: last_chain_url)
  then show ?thesis
    by (simp add: endswith_any_def excluded_extensions_def)
qed

lemma is_valid_chain_url: "is_valid_url (chain_url (Suc k))"
  unfolding is_valid_url_unfold
  by (simp add: urlparse_chain_url allowed_domain chain_url_marks before_absent lower_chain
      chain_url_no_extension del: replicate.simps)

lemma chain_page_facts:
  "extract_text rp (chain_page u) = Inr (''x'', ''main#main-content'')"
  "page_title_of (chain_page u) = ''No Title Found''"
  "anchor_hrefs (chain_page u) = [u @ ''a'']"
proof -
  have "strip ''x'' = ''x''"
    by code_simp
  then show "extract_text rp (chain_page u) = Inr (''x'', ''main#main-content'')"
    by (simp add: extract_text_def chain_page_def find_main_content_def find_first_def
        is_tag_def get_text_def stripped_strings_def)
  show "page_title_of (chain_page u) = ''No Title Found''"
    by (simp add: page_title_of_def chain_page_def find_title_def find_first_def is_tag_def)
  show "anchor_hrefs (chain_page u) = [u @ ''a'']"
    by (simp add: anchor_hrefs_def chain_page_def is_tag_def)
qed

lemma html_header: "contains (lower ''text/html'') ''text/html''"
  by code_simp

lemma chain_step:
  "crawl_iteration chain_world (chain_state k) = Next (periodic_save (chain_state (Suc k)))"
proof -
  have fresh: "chain_url k \<notin> chain_url ` {..<k}"
    by (auto simp: chain_url_inj)
  define s0 where "s0 = (chain_state k)\<lparr>queue := [], visited_urls := insert (chain_url k) (visited_urls (chain_state k))\<rparr>"
  define s1 where "s1 = store (chain_url k) chain_result s0"
  have keys: "chain_url k \<notin> fst ` set (crawl_data s0)"
    by (auto simp: s0_def chain_state_def chain_url_inj)
  have s1: "s1 = \<lparr>queue = [], visited_urls = chain_url ` {..<Suc k}, pages_crawled = int k,
      crawl_data = map (\<lambda>i. (chain_url i, chain_result)) [0..<Suc k],
      last_save_count = 0, output_file = []\<rparr>"
    using update_fresh [OF keys, of chain_result]
    by (simp add: s1_def store_def s0_def chain_state_def lessThan_Suc)
  have new: "chain_url (Suc k) \<notin> visited_urls s1"
    by (auto simp: s1 chain_url_inj)
  have nonempty: "chain_url (Suc k) \<noteq> []"
    by (simp add: chain_url_def)
  have ql: "queue_links chain_world (chain_url k) [chain_url (Suc k)] s1 =
      (None, s1\<lparr>queue := [chain_url (Suc k)]\<rparr>)"
    using new nonempty
    by (simp add: strip_chain chain_world_def urljoin_absolute_def urlparse_chain_url
        normalize_chain enqueue_def is_valid_chain_url s1 del: replicate.simps)
  have ex: "extract_text (reparse chain_world) (chain_page (chain_url k)) =
      Inr (''x'', ''main#main-content'')"
    by (rule chain_page_facts)
  have st: "store (chain_url k)
      (Success ''x'' (page_title_of (chain_page (chain_url k))) ''main#main-content'') s0 = s1"
    by (simp add: s1_def chain_result_def chain_page_facts)
  have hr: "anchor_hrefs (chain_page (chain_url k)) = [chain_url (Suc k)]"
    by (simp add: chain_page_facts chain_url_Suc)
  have fin: "s1\<lparr>queue := [chain_url (Suc k)], pages_crawled := int k + 1\<rparr> = chain_state (Suc k)"
    by (simp add: s1 chain_state_def)
  have "process_soup chain_world (chain_url k) (chain_page (chain_url k)) s0 =
      (None, periodic_save (s1\<lparr>queue := [chain_url (Suc k)], pages_crawled := int k + 1\<rparr>))"
    unfolding process_soup_def ex
    by (simp add: st hr ql Let_def del: queue_links.simps) (simp add: s1)
  then have ps: "process_soup chain_world (chain_url k) (chain_page (chain_url k)) s0 =
      (None, periodic_save (chain_state (Suc k)))"
    by (simp only: fin)
  have tb: "try_body chain_world (chain_url k) s0 = (None, periodic_save (chain_state (Suc k)))"
    using ps by (simp add: try_body_def chain_world_def html_header raise_for_status_def)
  show ?thesis
    using fresh tb
    by (simp add: crawl_iteration_def clean_dequeued_chain s0_def chain_state_def)
qed

lemma periodic_save_chain: "Suc k < 200 \<Longrightarrow> periodic_save (chain_state (Suc k)) = chain_state (Suc k)"
  by (simp add: periodic_save_def chain_state_def SAVE_EVERY_N_PAGES_def)

lemma state_at_chain:
  "j + k < 200 \<Longrightarrow> state_at k chain_world (chain_state j) = Some (chain_state (j + k))"
proof (induction k arbitrary: j)
  case 0
  then show ?case by simp
next
  case (Suc k)
  from Suc.prems have "Suc j < 200" "Suc j + k < 200" by simp_all
  with Suc.IH [of "Suc j"] show ?case
    by (simp add: chain_step periodic_save_chain)
qed

lemma initial_chain: "initial_state START_URL = chain_state 0"
  by (simp add: initial_state_def chain_state_def START_URL_def chain_url_def)

lemma map_of_tabulated:
  assumes "\<And>i j. f i = f j \<longleftrightarrow> i = j"
  shows "map_of (map (\<lambda>i. (f i, r)) xs) (f j) = (if j \<in> set xs then Some r else None)"
  by (induction xs) (auto simp: assms)

lemma chain_entries:
  "map_of (crawl_data (chain_state n)) (chain_url j) = (if j < n then Some chain_result else None)"
  using map_of_tabulated [of chain_url chain_result "[0..<n]" j]
  by (simp add: chain_state_def chain_url_inj)

section \<open>Termination and exit status\<close>

text \<open>
  Claim C1, as stated, fails. The claim wants three different exit statuses for an
  interrupted run, a completed run and a run ended by a top-level error. A run whose
  first request is interrupted, a run that drains its queue, and a run in which
  \<open>urlparse\<close> raises outside the \<open>try\<close> all end with status 0.
\<close>

theorem exit_status_counterexample:
  "map_option snd (run 1 interrupt_world) = Some 0 \<and>
   map_option snd (run 2 timeout_world) = Some 0 \<and>
   map_option snd
     (map_option main_block (crawl_loop 1 timeout_world (initial_state ''http://[''))) =
     Some 0"
  by code_simp

text \<open>
  Claim C1, amended. When the operator's interrupt arrives during the delay or the
  request of a pass, the handler writes a snapshot of the result map as it is and the
  loop is left with \<open>SystemExit(0)\<close>; the main block then saves once more and the
  process exits with status 0. A run that completes and a run ended by a top-level
  error also save a final snapshot and exit with status 0.
\<close>

theorem interrupt_saves_and_exits:
  assumes "queue s = url # rest" and "clean_dequeued url = Some u" and "u \<notin> visited_urls s"
    and "fetch w u = Sigint"
  shows "\<exists>s'. crawl_iteration w s = Exits 0 s' \<and> crawl_data s' = crawl_data s \<and>
           output_file s' = output_file s @ [crawl_data s] \<and>
           (\<forall>k. crawl_loop (Suc k) w s = Some (Exited 0, s')) \<and>
           main_block (Exited 0, s') = (save_data s', 0) \<and>
           main_block (Returned, s) = (save_data s, 0) \<and>
           (\<forall>name msg. main_block (Failed name msg, s) = (save_data s, 0))"
  using assms
  by (simp add: crawl_iteration_def try_body_def signal_handler_def save_data_def)

theorem interrupt_saves_and_exits_witness:
  "fetch interrupt_world START_URL = Sigint \<and>
   crawl_iteration interrupt_world (initial_state START_URL) =
     Exits 0 (save_data dequeued_start) \<and>
   crawl_loop 1 interrupt_world (initial_state START_URL) =
     Some (Exited 0, save_data dequeued_start) \<and>
   run 1 interrupt_world = Some (save_data (save_data dequeued_start), 0)"
proof -
  have q: "queue (initial_state START_URL) = START_URL # []"
    by (simp add: initial_state_def)
  have c: "clean_dequeued START_URL = Some START_URL"
    by code_simp
  have v: "START_URL \<notin> visited_urls (initial_state START_URL)"
    by (simp add: initial_state_def)
  have f: "fetch interrupt_world START_URL = Sigint"
    by (simp add: interrupt_world_def)
  from interrupt_saves_and_exits [OF q c v f] obtain s' where
    it: "crawl_iteration interrupt_world (initial_state START_URL) = Exits 0 s'"
    and lp: "crawl_loop (Suc 0) interrupt_world (initial_state START_URL) = Some (Exited 0, s')"
    and mb: "main_block (Exited 0, s') = (save_data s', 0)"
    by blast
  have "crawl_iteration interrupt_world (initial_state START_URL) =
      Exits 0 (save_data dequeued_start)"
    using c f by (simp add: crawl_iteration_def try_body_def signal_handler_def
        initial_state_def dequeued_start_def)
  with it have "s' = save_data dequeued_start" by simp
  with it lp mb f show ?thesis
    by (simp add: run_def)
qed

text \<open>An interrupt that arrives while the first parser runs is written to the file as
  well, but the bare \<open>except:\<close> around the parser catches the handler's \<open>SystemExit\<close>:
  the pass goes on with the fallback parser and the loop does not stop.\<close>

lemma interrupt_during_parse_goes_on:
  "crawl_iteration parse_interrupt_world (initial_state START_URL) =
     Next ((record_page START_URL
              (ProcessingError ''SelectorSyntaxError: #hs-web-interactives-.*'')
              dequeued_start)\<lparr>output_file := [[]]\<rparr>)"
  by code_simp

section \<open>Checkpoints\<close>

text \<open>
  Claim C2. A checkpoint is written for every Nth page that is processed successfully:
  in every pass of a run that stores a \<open>success\<close> entry, the counter goes up by one,
  and when the new count is a multiple of \<open>SAVE_EVERY_N_PAGES\<close> the result map,
  with the new entry, is written to the output file. The count includes the pages
  recorded as errors or as non-HTML before, whatever they were.
\<close>

theorem checkpoint_at_every_nth_page:
  assumes reach: "state_at n w (initial_state start_url) = Some s"
    and step: "crawl_iteration w s = Next s'"
    and new: "map_of (crawl_data s) u = None"
    and success: "map_of (crawl_data s') u = Some (Success t ti m)"
    and nth: "pages_crawled s' mod SAVE_EVERY_N_PAGES = 0"
  shows "pages_crawled s' = pages_crawled s + 1 \<and>
         output_file s' \<noteq> [] \<and> last (output_file s') = crawl_data s' \<and>
         length (output_file s) < length (output_file s') \<and>
         last_save_count s' = pages_crawled s'"
proof -
  from state_at_consistent [OF initial_consistent reach] have c: "last_save_count s \<le> pages_crawled s"
    by (simp add: consistent_def)
  from step obtain url rest where q: "queue s = url # rest"
    by (cases "queue s") (auto simp: crawl_iteration_def)
  from step q obtain cu where cu: "clean_dequeued url = Some cu"
    by (cases "clean_dequeued url") (auto simp: crawl_iteration_def)
  have fresh: "cu \<notin> visited_urls s"
  proof
    assume "cu \<in> visited_urls s"
    with step q cu have "s' = s\<lparr>queue := rest\<rparr>"
      by (simp add: crawl_iteration_def)
    with new success show False by simp
  qed
  define s0 where "s0 = s\<lparr>queue := rest, visited_urls := insert cu (visited_urls s)\<rparr>"
  from step q cu fresh have ex: "except_clauses cu (try_body w cu s0) = Next s'"
    by (simp add: crawl_iteration_def s0_def)
  from except_clauses_recorded [OF ex] obtain x where
    "crawl_data s' = AList.update cu x (crawl_data s)"
    by (auto simp: recorded_def s0_def)
  with new success have "u = cu"
    by (auto simp: update_conv' split: if_splits)
  with success have suc: "map_of (crawl_data s') cu = Some (Success t ti m)" by simp
  from except_clauses_done [OF ex suc] have tb: "try_body w cu s0 = (None, s')" .
  from try_body_done [OF tb suc] obtain s2 where s2: "s' = periodic_save s2"
    "pages_crawled s2 = pages_crawled s + 1" "last_save_count s2 = last_save_count s"
    "length (output_file s) \<le> length (output_file s2)"
    by (auto simp: s0_def)
  from nth s2 have "pages_crawled s2 mod SAVE_EVERY_N_PAGES = 0"
    by (simp add: periodic_save_keeps)
  moreover from c s2 have "last_save_count s2 < pages_crawled s2" by simp
  ultimately have ps: "periodic_save s2 = (save_data s2)\<lparr>last_save_count := pages_crawled s2\<rparr>"
    by (simp add: periodic_save_def)
  show ?thesis
    unfolding s2(1) ps using s2(2-4) by (simp add: save_data_def)
qed

theorem checkpoint_at_every_nth_page_witness:
  "state_at 199 chain_world (initial_state START_URL) = Some (chain_state 199) \<and>
   crawl_iteration chain_world (chain_state 199) = Next (periodic_save (chain_state 200)) \<and>
   pages_crawled (periodic_save (chain_state 200)) = 200 \<and>
   length (crawl_data (periodic_save (chain_state 200))) = 200 \<and>
   output_file (chain_state 199) = [] \<and>
   output_file (periodic_save (chain_state 200)) \<noteq> [] \<and>
   last (output_file (periodic_save (chain_state 200))) =
     crawl_data (periodic_save (chain_state 200)) \<and>
   last_save_count (periodic_save (chain_state 200)) = 200"
proof -
  have reach: "state_at 199 chain_world (initial_state START_URL) = Some (chain_state 199)"
    using state_at_chain [of 0 199] by (simp add: initial_chain)
  have step: "crawl_iteration chain_world (chain_state 199) = Next (periodic_save (chain_state 200))"
    using chain_step [of 199] by simp
  have new: "map_of (crawl_data (chain_state 199)) (chain_url 199) = None"
    by (simp add: chain_entries)
  have success: "map_of (crawl_data (periodic_save (chain_state 200))) (chain_url 199) =
      Some (Success ''x'' ''No Title Found'' ''main#main-content'')"
    by (simp add: periodic_save_keeps chain_entries chain_result_def)
  have pages: "pages_crawled (periodic_save (chain_state 200)) = 200"
    by (simp add: periodic_save_keeps chain_state_def)
  then have nth: "pages_crawled (periodic_save (chain_state 200)) mod SAVE_EVERY_N_PAGES = 0"
    by (simp add: SAVE_EVERY_N_PAGES_def)
  have len: "length (crawl_data (periodic_save (chain_state 200))) = 200"
    by (simp add: periodic_save_keeps chain_state_def)
  have empty: "output_file (chain_state 199) = []"
    by (simp add: chain_state_def)
  from checkpoint_at_every_nth_page [OF reach step new success nth] reach step pages len empty
  show ?thesis by simp
qed

text \<open>The branches that record a failure add one to the counter and do not look at
  the interval: such a pass writes no checkpoint, whatever the new count is.\<close>

lemma failed_pass_writes_no_checkpoint:
  assumes "queue s = url # rest" and "clean_dequeued url = Some u" and "u \<notin> visited_urls s"
    and "fetch w u = FetchRaises Timeout"
  shows "\<exists>s'. crawl_iteration w s = Next s' \<and> pages_crawled s' = pages_crawled s + 1 \<and>
           output_file s' = output_file s \<and> last_save_count s' = last_save_count s"
  using assms
  by (simp add: crawl_iteration_def try_body_def record_page_def store_def)

section \<open>Results are kept\<close>

text \<open>
  Claim C3 says that results are written once: at most one record is ever written for
  a URL, and an entry of the result map is never overwritten. The code does not keep
  this. The start page below has the primary landmark and one link, \<open>http://[\<close>, which
  \<open>urlparse\<close> refuses. The \<open>try\<close> body stores a \<open>success\<close> record for the page;
  \<open>urljoin\<close> then raises \<open>ValueError\<close> in the link loop, which has no handler of its
  own, and the handler of \<open>Exception\<close> of the pass replaces the stored record by a
  \<open>processing_error\<close> record: two records are written for one URL, and the first is
  overwritten.
\<close>

theorem success_record_overwritten:
  "find_main_content bad_link_page \<noteq> None \<and>
   anchor_hrefs bad_link_page = [''http://[''] \<and>
   urlparse ''http://['' = None \<and>
   urlparse_error ''http://['' = ''Invalid IPv6 URL'' \<and>
   fst (try_body bad_link_world START_URL dequeued_start) =
     Some (Exception ''ValueError'' ''Invalid IPv6 URL'') \<and>
   map_of (crawl_data (snd (try_body bad_link_world START_URL dequeued_start))) START_URL =
     Some (Success ''Hello'' ''No Title Found'' ''main#main-content'') \<and>
   entry_after (crawl_iteration bad_link_world (initial_state START_URL)) START_URL =
     Some (ProcessingError ''ValueError: Invalid IPv6 URL'')"
  by code_simp

text \<open>Between passes the claim holds: in every run, an entry that is in the result map
  at the start of a pass is the same after any number of later passes, however the URL
  is reached again.\<close>

lemma entries_kept_by_later_passes:
  assumes "state_at n w (initial_state start_url) = Some s" and "state_at m w s = Some s'"
    and "map_of (crawl_data s) k = Some r"
  shows "map_of (crawl_data s') k = Some r"
proof -
  from state_at_consistent [OF initial_consistent assms(1)] have c: "consistent s" .
  from state_at_keeps_entries [OF c assms(2,3)] show ?thesis .
qed

section \<open>The frontier\<close>

text \<open>
  Claim C4. Enqueueing is idempotent: for every URL \<open>u\<close> and every frontier state (the
  queue with the visited set), enqueueing \<open>u\<close> twice gives the state that enqueueing it
  once gives, and a URL that is in the visited set or pending in the queue is not
  appended again.
\<close>

theorem enqueue_idempotent:
  "enqueue u (enqueue u s) = enqueue u s \<and>
   (u \<in> visited_urls s \<or> u \<in> set (queue s) \<longrightarrow> enqueue u s = s)"
  by (simp add: enqueue_def)

theorem enqueue_idempotent_witness:
  "(''https://www.workstream.us/pricing'' \<in> visited_urls frontier_example \<or>
    ''https://www.workstream.us/pricing'' \<in> set (queue frontier_example)) \<and>
   enqueue ''https://www.workstream.us/pricing'' frontier_example = frontier_example \<and>
   enqueue ''https://www.workstream.us/about''
     (enqueue ''https://www.workstream.us/about'' frontier_example) =
   enqueue ''https://www.workstream.us/about'' frontier_example \<and>
   queue (enqueue ''https://www.workstream.us/about'' frontier_example) =
     [''https://www.workstream.us/pricing'', ''https://www.workstream.us/about'']"
proof -
  have h: "''https://www.workstream.us/pricing'' \<in> set (queue frontier_example)"
    by (simp add: frontier_example_def)
  have v: "is_valid_url ''https://www.workstream.us/about''"
    by code_simp
  have q: "queue (enqueue ''https://www.workstream.us/about'' frontier_example) =
     [''https://www.workstream.us/pricing'', ''https://www.workstream.us/about'']"
    using v by (simp add: enqueue_def frontier_example_def)
  from h q enqueue_idempotent [of "''https://www.workstream.us/pricing''" frontier_example]
    enqueue_idempotent [of "''https://www.workstream.us/about''" frontier_example]
  show ?thesis by blast
qed

section \<open>Extraction\<close>

text \<open>
  Claim C5. The strategies run in a fixed order and the first that finds its element
  wins: for every document that contains \<open>main\<close> with the id \<open>main-content\<close>, whatever
  else it contains, the text is that of the landmark and the extraction method that
  the \<open>try\<close> body records is \<open>main#main-content\<close>.
\<close>

theorem primary_landmark_first:
  assumes "find_main_content soup = Some m"
  shows "extract_text rp soup = Inr (get_text m, ''main#main-content'') \<and>
         map_of (crawl_data (snd (process_soup w u soup s))) u =
           Some (Success (get_text m) (page_title_of soup) ''main#main-content'')"
proof -
  from assms have e: "extract_text rp soup = Inr (get_text m, ''main#main-content'')" for rp
    by (simp add: extract_text_def)
  from process_soup_data [OF e] e show ?thesis
    by (simp add: update_conv')
qed

theorem primary_landmark_first_witness:
  "find_main_content landmark_page \<noteq> None \<and> find_main landmark_page \<noteq> None \<and>
   find_wrapper landmark_page \<noteq> None \<and> find_body landmark_page \<noteq> None \<and>
   extract_text (reparse chain_world) landmark_page =
     Inr (''Crumbs Hello World'', ''main#main-content'') \<and>
   map_of (crawl_data (snd (process_soup chain_world START_URL landmark_page dequeued_start)))
     START_URL = Some (Success ''Crumbs Hello World'' ''Pricing'' ''main#main-content'')"
proof -
  have m: "find_main_content landmark_page =
      Some (Tag ''main'' [(''id'', ''main-content'')]
              [Tag ''nav'' [] [NavigableString ''Crumbs''],
               Tag ''p'' [] [NavigableString '' Hello World '']])"
    by code_simp
  have t: "get_text (Tag ''main'' [(''id'', ''main-content'')]
              [Tag ''nav'' [] [NavigableString ''Crumbs''],
               Tag ''p'' [] [NavigableString '' Hello World '']]) = ''Crumbs Hello World''"
    by code_simp
  have others: "find_main landmark_page \<noteq> None \<and> find_wrapper landmark_page \<noteq> None \<and>
      find_body landmark_page \<noteq> None \<and> page_title_of landmark_page = ''Pricing''"
    by code_simp
  from primary_landmark_first [OF m, of "reparse chain_world" chain_world START_URL dequeued_start]
    m t others
  show ?thesis by simp
qed

text \<open>
  What each strategy returns. The bare \<open>main\<close> gives the text of the element as it
  is. The wrapper gives the text nodes of the second parse that are outside every
  element matching one of the seven wrapper selectors. The body fallback raises for
  every document, whatever the second parse returns, because its selector list
  contains strings that are not CSS selectors. Without a body the text of the whole
  document is returned as it is.
\<close>

lemma extraction_strategies:
  "(find_main_content soup = None \<and> find_main soup = Some m \<longrightarrow>
      extract_text rp soup = Inr (get_text m, ''<main> tag'')) \<and>
   (find_main_content soup = None \<and> find_main soup = None \<and> find_wrapper soup = Some d \<and>
    rp d = Inr copy \<longrightarrow>
      extract_text rp soup =
        Inr (join '' '' (stripped_strings
               (strings_outside (matches_any wrapper_selectors) copy)),
             ''div.body-container-wrapper'')) \<and>
   (find_main_content soup = None \<and> find_main soup = None \<and> find_wrapper soup = None \<and>
    find_body soup = Some b \<and> rp b = Inr copy \<longrightarrow>
      extract_text rp soup = Inl (Exception ''SelectorSyntaxError'' ''#hs-web-interactives-.*'')) \<and>
   (find_main_content soup = None \<and> find_main soup = None \<and> find_wrapper soup = None \<and>
    find_body soup = None \<longrightarrow>
      extract_text rp soup = Inr (get_text soup, ''Fallback (Full Document - No Body)''))"
  by (simp add: extract_text_def wrapper_cleanup_succeeds body_cleanup_raises get_text_def
      all_strings_remove_matching)

lemma body_fallback_never_returns:
  assumes "find_main_content soup = None" "find_main soup = None" "find_wrapper soup = None"
    "find_body soup = Some b"
  shows "extract_text rp soup =
     (case rp b of
        Inl e \<Rightarrow> Inl e
      | Inr copy \<Rightarrow> Inl (Exception ''SelectorSyntaxError'' ''#hs-web-interactives-.*''))"
  using assms by (simp add: extract_text_def body_cleanup_raises split: sum.splits)

text \<open>
  Claim C6 on the body fallback (strategy 4). For a page with a body and none of the
  preferred containers, and for every document that the second parse makes of the
  body, the removal loop reaches the selector \<open>#hs-web-interactives-.*\<close>, \<open>select\<close>
  raises \<open>SelectorSyntaxError\<close>, no text is extracted and the page is recorded with the
  status \<open>processing_error\<close>.
\<close>

theorem body_fallback_raises:
  "find_main_content plain_page = None \<and> find_main plain_page = None \<and>
   find_wrapper plain_page = None \<and> find_body plain_page \<noteq> None \<and>
   css_compile ''#hs-web-interactives-.*'' = None \<and>
   extract_text (\<lambda>element. Inr (second_parse element)) plain_page =
     Inl (Exception ''SelectorSyntaxError'' ''#hs-web-interactives-.*'') \<and>
   extract_text reparse_copy plain_page =
     Inl (Exception ''SelectorSyntaxError'' ''#hs-web-interactives-.*'') \<and>
   entry_after (crawl_iteration plain_world (initial_state START_URL)) START_URL =
     Some (ProcessingError ''SelectorSyntaxError: #hs-web-interactives-.*'')"
proof -
  have f: "find_main_content plain_page = None \<and> find_main plain_page = None \<and>
      find_wrapper plain_page = None \<and>
      find_body plain_page =
        Some (Tag ''body'' []
                [Tag ''header'' [] [NavigableString ''Menu''],
                 Tag ''p'' [] [NavigableString ''Hello'']])"
    by code_simp
  have c: "css_compile ''#hs-web-interactives-.*'' = None"
    by code_simp
  have e: "entry_after (crawl_iteration plain_world (initial_state START_URL)) START_URL =
      Some (ProcessingError ''SelectorSyntaxError: #hs-web-interactives-.*'')"
    by code_simp
  from f c e show ?thesis
    by (simp add: extract_text_def body_cleanup_raises reparse_copy_def)
qed

section \<open>Scope of the crawl\<close>

text \<open>
  Claim C7, as stated, fails: each URL below has the scheme https, the allowed host and
  a path without a denylisted extension, so the filter of the specification accepts it,
  and \<open>is_valid_url\<close> rejects it: the first contains a \<open>#\<close>, the network location of
  the second is the host with a port, and the text of the third before its query ends
  in \<open>.pdf\<close>, which belongs to the parameters and not to the path.
\<close>

theorem is_valid_url_fragment_counterexample:
  "is_in_scope_spec ''https://www.workstream.us/pricing#team'' ALLOWED_DOMAIN \<and>
   \<not> is_valid_url ''https://www.workstream.us/pricing#team'' \<and>
   is_in_scope_spec ''https://www.workstream.us:443/pricing'' ALLOWED_DOMAIN \<and>
   \<not> is_valid_url ''https://www.workstream.us:443/pricing'' \<and>
   is_in_scope_spec ''https://www.workstream.us/a;b.pdf'' ALLOWED_DOMAIN \<and>
   \<not> is_valid_url ''https://www.workstream.us/a;b.pdf''"
  by code_simp

text \<open>
  Claim C7, amended. For every URL string \<open>u\<close>, \<open>is_valid_url\<close> returns true iff \<open>u\<close>
  parses, its scheme is http or https, its network location equals the allowed domain
  exactly, \<open>u\<close> contains no \<open>#\<close>, and the lower-cased text of \<open>u\<close> before its first \<open>?\<close>
  does not end in a denylisted extension. In particular it accepts an in-host page
  path and rejects a subdomain host, an ftp scheme and a \<open>.pdf\<close> path.
\<close>

theorem is_valid_url_iff:
  "(is_valid_url u \<longleftrightarrow>
     (\<exists>p. urlparse u = Some p \<and> scheme p \<in> {''http'', ''https''} \<and>
          netloc p = ALLOWED_DOMAIN \<and> CHR ''#'' \<notin> set u \<and>
          \<not> endswith_any (lower (before (CHR ''?'') u)) excluded_extensions)) \<and>
   ALLOWED_DOMAIN = ''www.workstream.us'' \<and>
   is_valid_url ''https://www.workstream.us/pricing'' \<and>
   \<not> is_valid_url ''https://sub.www.workstream.us/pricing'' \<and>
   \<not> is_valid_url ''ftp://www.workstream.us/x'' \<and>
   \<not> is_valid_url ''https://www.workstream.us/report.pdf''"
proof -
  have ex1: "is_valid_url ''https://www.workstream.us/pricing''"
    by code_simp
  have ex2: "\<not> is_valid_url ''https://sub.www.workstream.us/pricing''"
    by code_simp
  have ex3: "\<not> is_valid_url ''ftp://www.workstream.us/x''"
    by code_simp
  have ex4: "\<not> is_valid_url ''https://www.workstream.us/report.pdf''"
    by code_simp
  from is_valid_url_unfold [of u] allowed_domain ex1 ex2 ex3 ex4 show ?thesis by blast
qed

theorem is_valid_url_iff_witness:
  "is_valid_url ''https://www.workstream.us/careers?team=sales'' \<and>
   (\<exists>p. urlparse ''https://www.workstream.us/careers?team=sales'' = Some p \<and>
        scheme p \<in> {''http'', ''https''} \<and> netloc p = ALLOWED_DOMAIN)"
proof -
  have "is_valid_url ''https://www.workstream.us/careers?team=sales''"
    by code_simp
  with is_valid_url_iff [of "''https://www.workstream.us/careers?team=sales''"]
  show ?thesis by blast
qed

section \<open>Normalization\<close>

text \<open>
  Claim C8, as stated, fails. \<open>rstrip('/')\<close> removes every trailing slash, not a single
  one: two slashes go from the first URL. The slash is looked for at the end of the
  whole URL and not of the path: the second URL keeps the path \<open>/blog/\<close>, in the link
  loop and when it is taken from the queue.
\<close>

theorem normalize_link_counterexample:
  "normalize_link ''https://www.workstream.us/a//'' = Some ''https://www.workstream.us/a'' \<and>
   normalize_link ''https://www.workstream.us/blog/?page=2'' =
     Some ''https://www.workstream.us/blog/?page=2'' \<and>
   clean_dequeued ''https://www.workstream.us/blog/?page=2'' =
     Some ''https://www.workstream.us/blog/?page=2'' \<and>
   map_option path (urlparse ''https://www.workstream.us/blog/?page=2'') = Some ''/blog/''"
  by code_simp

text \<open>
  Claim C8, amended. For every link that parses, the normal form has no \<open>#\<close>, so no
  fragment. When the path is empty or exactly \<open>/\<close>, the normal form is the URL without
  its fragment, as it is, with its slash if it has one. Otherwise the normal form is
  the URL without its fragment less all the slashes at its end, and does not end in a
  slash. The same rule is applied to each URL taken from the queue: it is left as it
  is when the path is empty or \<open>/\<close>, and loses all the slashes at its end otherwise.
\<close>

theorem normalize_link_drops_fragment_and_slashes:
  assumes "urlparse joined = Some p"
  shows "(\<exists>n. normalize_link joined = Some n \<and> CHR ''#'' \<notin> set n \<and>
            (if path p = [] \<or> path p = ''/''
             then n = geturl (p\<lparr>fragment := []\<rparr>)
             else \<not> endswith n ''/'' \<and>
                  (\<exists>k. geturl (p\<lparr>fragment := []\<rparr>) = n @ replicate k (CHR ''/'')))) \<and>
         (\<exists>c. clean_dequeued joined = Some c \<and>
            (if path p = [] \<or> path p = ''/''
             then c = joined
             else \<not> endswith c ''/'' \<and> (\<exists>k. joined = c @ replicate k (CHR ''/''))))"
proof -
  define a where "a = geturl (p\<lparr>fragment := []\<rparr>)"
  from urlparse_no_hash [OF assms] have a: "CHR ''#'' \<notin> set a"
    unfolding a_def by (intro geturl_no_hash) simp_all
  have link: "\<exists>n. normalize_link joined = Some n \<and> CHR ''#'' \<notin> set n \<and>
            (if path p = [] \<or> path p = ''/''
             then n = a
             else \<not> endswith n ''/'' \<and> (\<exists>k. a = n @ replicate k (CHR ''/'')))"
  proof (cases "path p \<noteq> [] \<and> path p \<noteq> ''/'' \<and> endswith a ''/''")
    case True
    with assms have n: "normalize_link joined = Some (rstrip_slash a)"
      by (simp add: normalize_link_def a_def Let_def)
    from a set_rstrip_slash [of a] have "CHR ''#'' \<notin> set (rstrip_slash a)" by auto
    with n True rstrip_slash_replicate [of a] rstrip_slash_end [of a] show ?thesis by auto
  next
    case False
    with assms have n: "normalize_link joined = Some a"
      by (auto simp: normalize_link_def a_def Let_def)
    have "a = a @ replicate 0 (CHR ''/'')" by simp
    then have "\<exists>k. a = a @ replicate k (CHR ''/'')" ..
    with n a False show ?thesis by auto
  qed
  have deq: "\<exists>c. clean_dequeued joined = Some c \<and>
            (if path p = [] \<or> path p = ''/''
             then c = joined
             else \<not> endswith c ''/'' \<and> (\<exists>k. joined = c @ replicate k (CHR ''/'')))"
  proof (cases "path p \<noteq> [] \<and> path p \<noteq> ''/'' \<and> endswith joined ''/''")
    case True
    with assms have "clean_dequeued joined = Some (rstrip_slash joined)"
      by (simp add: clean_dequeued_def)
    with True rstrip_slash_replicate [of joined] rstrip_slash_end [of joined] show ?thesis by auto
  next
    case False
    with assms have c: "clean_dequeued joined = Some joined"
      by (auto simp: clean_dequeued_def)
    have "joined = joined @ replicate 0 (CHR ''/'')" by simp
    then have "\<exists>k. joined = joined @ replicate k (CHR ''/'')" ..
    with c False show ?thesis by auto
  qed
  from link deq show ?thesis unfolding a_def by blast
qed

theorem normalize_link_witness:
  "urlparse ''https://www.workstream.us/about/#team'' =
     Some \<lparr>scheme = ''https'', netloc = ''www.workstream.us'', path = ''/about/'',
           params = [], query = [], fragment = ''team''\<rparr> \<and>
   normalize_link ''https://www.workstream.us/about/#team'' =
     Some ''https://www.workstream.us/about'' \<and>
   clean_dequeued ''https://www.workstream.us/about/'' = Some ''https://www.workstream.us/about'' \<and>
   urlparse ''https://www.workstream.us/#top'' =
     Some \<lparr>scheme = ''https'', netloc = ''www.workstream.us'', path = ''/'',
           params = [], query = [], fragment = ''top''\<rparr> \<and>
   normalize_link ''https://www.workstream.us/#top'' = Some ''https://www.workstream.us/'' \<and>
   clean_dequeued ''https://www.workstream.us/'' = Some ''https://www.workstream.us/'' \<and>
   normalize_link ''https://www.workstream.us'' = Some ''https://www.workstream.us'' \<and>
   (\<exists>n. normalize_link ''https://www.workstream.us/about/#team'' = Some n \<and>
        CHR ''#'' \<notin> set n \<and> \<not> endswith n ''/'' \<and>
        (\<exists>k. ''https://www.workstream.us/about/'' = n @ replicate k (CHR ''/''))) \<and>
   (\<exists>n. normalize_link ''https://www.workstream.us/#top'' = Some n \<and>
        CHR ''#'' \<notin> set n \<and> n = ''https://www.workstream.us/'') \<and>
   (\<exists>c. clean_dequeued ''https://www.workstream.us/about/'' = Some c \<and>
        \<not> endswith c ''/'' \<and>
        (\<exists>k. ''https://www.workstream.us/about/'' = c @ replicate k (CHR ''/''))) \<and>
   (\<exists>c. clean_dequeued ''https://www.workstream.us/'' = Some c \<and>
        c = ''https://www.workstream.us/'')"
proof -
  have p: "urlparse ''https://www.workstream.us/about/#team'' =
     Some \<lparr>scheme = ''https'', netloc = ''www.workstream.us'', path = ''/about/'',
           params = [], query = [], fragment = ''team''\<rparr>"
    by code_simp
  have r: "urlparse ''https://www.workstream.us/#top'' =
     Some \<lparr>scheme = ''https'', netloc = ''www.workstream.us'', path = ''/'',
           params = [], query = [], fragment = ''top''\<rparr>"
    by code_simp
  have n: "normalize_link ''https://www.workstream.us/about/#team'' =
      Some ''https://www.workstream.us/about'' \<and>
    clean_dequeued ''https://www.workstream.us/about/'' = Some ''https://www.workstream.us/about'' \<and>
    normalize_link ''https://www.workstream.us/#top'' = Some ''https://www.workstream.us/'' \<and>
    clean_dequeued ''https://www.workstream.us/'' = Some ''https://www.workstream.us/'' \<and>
    normalize_link ''https://www.workstream.us'' = Some ''https://www.workstream.us''"
    by code_simp
  have g: "geturl (\<lparr>scheme = ''https'', netloc = ''www.workstream.us'', path = ''/about/'',
           params = [], query = [], fragment = ''team''\<rparr>\<lparr>fragment := []\<rparr>) =
      ''https://www.workstream.us/about/'' \<and>
    geturl (\<lparr>scheme = ''https'', netloc = ''www.workstream.us'', path = ''/'',
           params = [], query = [], fragment = ''top''\<rparr>\<lparr>fragment := []\<rparr>) =
      ''https://www.workstream.us/''"
    by code_simp
  from normalize_link_drops_fragment_and_slashes [OF p, THEN conjunct1]
  have a: "\<exists>n. normalize_link ''https://www.workstream.us/about/#team'' = Some n \<and>
        CHR ''#'' \<notin> set n \<and> \<not> endswith n ''/'' \<and>
        (\<exists>k. ''https://www.workstream.us/about/'' = n @ replicate k (CHR ''/''))"
    using g by simp
  from normalize_link_drops_fragment_and_slashes [OF r, THEN conjunct1]
  have b: "\<exists>n. normalize_link ''https://www.workstream.us/#top'' = Some n \<and>
        CHR ''#'' \<notin> set n \<and> n = ''https://www.workstream.us/''"
    using g by simp
  have p2: "urlparse ''https://www.workstream.us/about/'' =
     Some \<lparr>scheme = ''https'', netloc = ''www.workstream.us'', path = ''/about/'',
           params = [], query = [], fragment = []\<rparr>"
    by code_simp
  have r2: "urlparse ''https://www.workstream.us/'' =
     Some \<lparr>scheme = ''https'', netloc = ''www.workstream.us'', path = ''/'',
           params = [], query = [], fragment = []\<rparr>"
    by code_simp
  from normalize_link_drops_fragment_and_slashes [OF p2, THEN conjunct2]
  have c: "\<exists>c. clean_dequeued ''https://www.workstream.us/about/'' = Some c \<and>
        \<not> endswith c ''/'' \<and>
        (\<exists>k. ''https://www.workstream.us/about/'' = c @ replicate k (CHR ''/''))"
    by simp
  from normalize_link_drops_fragment_and_slashes [OF r2, THEN conjunct2]
  have d: "\<exists>c. clean_dequeued ''https://www.workstream.us/'' = Some c \<and>
        c = ''https://www.workstream.us/''"
    by simp
  from p r n a b c d show ?thesis by (intro conjI) simp_all
qed

section \<open>Failures on one URL\<close>

text \<open>
  Claim C9, as stated, fails. \<open>raise_for_status\<close> raises for a status from 400 to 599
  and for no other: an answer with the status 300 and an HTML body is processed as a
  page and recorded with the status \<open>success\<close>, and an answer with the status 304 and
  no content type is recorded with the status \<open>skipped_non_html\<close>. Neither status is
  2xx and neither answer is recorded with the status \<open>error\<close>.
\<close>

theorem redirect_status_counterexample:
  "raise_for_status 300 ''Multiple Choices'' START_URL = None \<and>
   entry_after (crawl_iteration multiple_choices_world (initial_state START_URL)) START_URL =
     Some (Success ''Crumbs Hello World'' ''Pricing'' ''main#main-content'') \<and>
   raise_for_status 304 ''Not Modified'' START_URL = None \<and>
   entry_after (crawl_iteration not_modified_world (initial_state START_URL)) START_URL =
     Some (SkippedNonHtml [])"
  by code_simp

text \<open>
  Claim C9, amended. Every failure on one URL is recovered in its pass: for a URL
  taken from the queue and not visited before, a time-out, a transport failure and an
  HTTP status from 400 to 599 are recorded with the status \<open>error\<close> and the message of
  the exception, and an exception of the parser or of the extraction, after an answer
  whose status is not from 400 to 599, is recorded with the status \<open>processing_error\<close>.
  Each time the pass ends with that record stored under the URL, one more page counted
  and the rest of the queue still to be crawled, and the loop goes on: it runs its next
  pass on that state, and returns if the queue is empty then.
\<close>

theorem per_url_failure_recorded:
  assumes "queue s = url # rest" and "clean_dequeued url = Some u" and "u \<notin> visited_urls s"
  shows "(fetch w u = FetchRaises Timeout \<longrightarrow>
            (\<exists>r. recovered w s u r \<and> status r = ''error'' \<and> r = Error ''Request timed out'')) \<and>
         (\<forall>msg. fetch w u = FetchRaises (RequestException msg) \<longrightarrow>
            (\<exists>r. recovered w s u r \<and> status r = ''error'' \<and> r = Error msg)) \<and>
         (\<forall>status_code reason final_url header parsed.
            fetch w u = Response status_code reason final_url header parsed \<and>
            400 \<le> status_code \<and> status_code < 600 \<longrightarrow>
            (\<exists>r. recovered w s u r \<and> status r = ''error'' \<and>
                 r = Error (str_int status_code @
                            (if status_code < 500 then '' Client Error: ''
                             else '' Server Error: '') @
                            reason @ '' for url: '' @ final_url))) \<and>
         (\<forall>status_code reason final_url header name msg.
            fetch w u = Response status_code reason final_url header
                          (ParseRaises (Exception name msg)) \<and>
            \<not> (400 \<le> status_code \<and> status_code < 600) \<and>
            contains (lower header) ''text/html'' \<longrightarrow>
            (\<exists>r. recovered w s u r \<and> status r = ''processing_error'' \<and>
                 r = ProcessingError (name @ '': '' @ msg))) \<and>
         (\<forall>status_code reason final_url header soup name msg.
            fetch w u = Response status_code reason final_url header (Parsed soup) \<and>
            \<not> (400 \<le> status_code \<and> status_code < 600) \<and>
            contains (lower header) ''text/html'' \<and>
            extract_text (reparse w) soup = Inl (Exception name msg) \<longrightarrow>
            (\<exists>r. recovered w s u r \<and> status r = ''processing_error'' \<and>
                 r = ProcessingError (name @ '': '' @ msg)))"
proof -
  note rec = failed_pass_recovered [OF assms]
  have a: "recovered w s u (Error ''Request timed out'')" if "fetch w u = FetchRaises Timeout"
    using that by (intro rec [of w Timeout]) (simp_all add: try_body_def)
  have b: "recovered w s u (Error msg)" if "fetch w u = FetchRaises (RequestException msg)" for msg
    using that by (intro rec [of w "RequestException msg"]) (simp_all add: try_body_def)
  have c: "recovered w s u (Error (str_int status_code @
                            (if status_code < 500 then '' Client Error: ''
                             else '' Server Error: '') @
                            reason @ '' for url: '' @ final_url))"
    if "fetch w u = Response status_code reason final_url header parsed"
      "400 \<le> status_code" "status_code < 600" for status_code reason final_url header parsed
    using that(1) http_error_raised [OF that(2,3), of reason final_url]
    by (intro rec [of w "RequestException (str_int status_code @
                            (if status_code < 500 then '' Client Error: ''
                             else '' Server Error: '') @
                            reason @ '' for url: '' @ final_url)"])
       (simp_all add: try_body_def)
  have d: "recovered w s u (ProcessingError (name @ '': '' @ msg))"
    if "fetch w u = Response status_code reason final_url header (ParseRaises (Exception name msg))"
      "\<not> (400 \<le> status_code \<and> status_code < 600)" "contains (lower header) ''text/html''"
    for status_code reason final_url header name msg
    using that(1,3) no_http_error [of status_code reason final_url] that(2)
    by (intro rec [of w "Exception name msg"]) (simp_all add: try_body_def Let_def)
  have e: "recovered w s u (ProcessingError (name @ '': '' @ msg))"
    if "fetch w u = Response status_code reason final_url header (Parsed soup)"
      "\<not> (400 \<le> status_code \<and> status_code < 600)" "contains (lower header) ''text/html''"
      "extract_text (reparse w) soup = Inl (Exception name msg)"
    for status_code reason final_url header soup name msg
    using that(1,3,4) no_http_error [of status_code reason final_url] that(2)
    by (intro rec [of w "Exception name msg"])
       (simp_all add: try_body_def Let_def process_soup_def)
  show ?thesis
  proof (intro conjI allI impI, goal_cases)
    case 1
    from a [OF 1] show ?case by simp
  next
    case (2 msg)
    from b [OF 2] show ?case by simp
  next
    case (3 status_code reason final_url header parsed)
    from 3 c [of status_code reason final_url header parsed]
    have "recovered w s u (Error (str_int status_code @
                            (if status_code < 500 then '' Client Error: ''
                             else '' Server Error: '') @
                            reason @ '' for url: '' @ final_url))"
      by blast
    then show ?case by simp
  next
    case (4 status_code reason final_url header name msg)
    from 4 d [of status_code reason final_url header name msg]
    have "recovered w s u (ProcessingError (name @ '': '' @ msg))"
      by blast
    then show ?case by simp
  next
    case (5 status_code reason final_url header soup name msg)
    from 5 e [of status_code reason final_url header soup name msg]
    have "recovered w s u (ProcessingError (name @ '': '' @ msg))"
      by blast
    then show ?case by simp
  qed
qed

theorem per_url_failure_recorded_witness:
  "recovered failing_site_world two_pending START_URL (Error ''Request timed out'') \<and>
   map_option fst (crawl_loop 3 failing_site_world two_pending) = Some Returned \<and>
   map_option (crawl_data \<circ> snd) (crawl_loop 3 failing_site_world two_pending) =
     Some [(START_URL, Error ''Request timed out''),
           (''https://www.workstream.us/pricing'',
            Error ''503 Server Error: Service Unavailable for url: https://www.workstream.us/pricing'')] \<and>
   recovered refused_world (initial_state START_URL) START_URL (Error ''Connection refused'') \<and>
   recovered not_found_world (initial_state START_URL) START_URL
     (Error ''404 Client Error: Not Found for url: https://www.workstream.us/'') \<and>
   recovered unparsable_world (initial_state START_URL) START_URL
     (ProcessingError ''ParserRejectedMarkup: bad markup'') \<and>
   recovered plain_world (initial_state START_URL) START_URL
     (ProcessingError ''SelectorSyntaxError: #hs-web-interactives-.*'') \<and>
   crawl_loop 2 not_found_world (initial_state START_URL) =
     Some (Returned,
           record_page START_URL
             (Error ''404 Client Error: Not Found for url: https://www.workstream.us/'')
             dequeued_start)"
proof -
  have q: "queue (initial_state START_URL) = START_URL # []"
    by (simp add: initial_state_def)
  have q2: "queue two_pending = START_URL # [''https://www.workstream.us/pricing'']"
    by (simp add: two_pending_def)
  have c: "clean_dequeued START_URL = Some START_URL"
    by code_simp
  have v: "START_URL \<notin> visited_urls (initial_state START_URL)"
    by (simp add: initial_state_def)
  have v2: "START_URL \<notin> visited_urls two_pending"
    by (simp add: initial_state_def two_pending_def)
  have f1: "fetch failing_site_world START_URL = FetchRaises Timeout"
    by (simp add: failing_site_world_def)
  have f2: "fetch refused_world START_URL = FetchRaises (RequestException ''Connection refused'')"
    by (simp add: refused_world_def)
  have f3: "fetch not_found_world START_URL =
      Response 404 ''Not Found'' START_URL ''text/html'' (Parsed plain_page) \<and>
      (400::int) \<le> 404 \<and> (404::int) < 600"
    by (simp add: not_found_world_def)
  have f4: "fetch unparsable_world START_URL =
      Response 200 ''OK'' START_URL ''text/html; charset=utf-8''
        (ParseRaises (Exception ''ParserRejectedMarkup'' ''bad markup'')) \<and>
      \<not> ((400::int) \<le> 200 \<and> (200::int) < 600) \<and>
      contains (lower ''text/html; charset=utf-8'') ''text/html''"
    by code_simp
  have f5: "fetch plain_world START_URL =
      Response 200 ''OK'' START_URL ''text/html'' (Parsed plain_page) \<and>
      \<not> ((400::int) \<le> 200 \<and> (200::int) < 600) \<and>
      contains (lower ''text/html'') ''text/html'' \<and>
      extract_text (reparse plain_world) plain_page =
        Inl (Exception ''SelectorSyntaxError'' ''#hs-web-interactives-.*'')"
    by code_simp
  have m3: "str_int 404 @ (if (404::int) < 500 then '' Client Error: '' else '' Server Error: '') @
      ''Not Found'' @ '' for url: '' @ START_URL =
      ''404 Client Error: Not Found for url: https://www.workstream.us/''"
    by code_simp
  note r1 = per_url_failure_recorded [OF q2 c v2, of failing_site_world, THEN conjunct1,
      rule_format, OF f1]
  note r2 = per_url_failure_recorded [OF q c v, of refused_world, THEN conjunct2, THEN conjunct1,
      rule_format, OF f2]
  note r3 = per_url_failure_recorded [OF q c v, of not_found_world, THEN conjunct2,
      THEN conjunct2, THEN conjunct1, rule_format, OF f3]
  note r4 = per_url_failure_recorded [OF q c v, of unparsable_world, THEN conjunct2,
      THEN conjunct2, THEN conjunct2, THEN conjunct1, rule_format, OF f4]
  note r5 = per_url_failure_recorded [OF q c v, of plain_world, THEN conjunct2,
      THEN conjunct2, THEN conjunct2, THEN conjunct2, rule_format, OF f5]
  have run: "map_option fst (crawl_loop 3 failing_site_world two_pending) = Some Returned \<and>
      map_option (crawl_data \<circ> snd) (crawl_loop 3 failing_site_world two_pending) =
        Some [(START_URL, Error ''Request timed out''),
              (''https://www.workstream.us/pricing'',
               Error ''503 Server Error: Service Unavailable for url: https://www.workstream.us/pricing'')]"
    by code_simp
  have two: "crawl_loop 2 not_found_world (initial_state START_URL) =
     Some (Returned,
           record_page START_URL
             (Error ''404 Client Error: Not Found for url: https://www.workstream.us/'')
             dequeued_start)"
    by code_simp
  from r1 have a1: "recovered failing_site_world two_pending START_URL (Error ''Request timed out'')"
    by blast
  from r2 have a2: "recovered refused_world (initial_state START_URL) START_URL
      (Error ''Connection refused'')"
    by blast
  from r3 have a3: "recovered not_found_world (initial_state START_URL) START_URL
      (Error ''404 Client Error: Not Found for url: https://www.workstream.us/'')"
    unfolding m3 by blast
  from r4 have a4: "recovered unparsable_world (initial_state START_URL) START_URL
      (ProcessingError ''ParserRejectedMarkup: bad markup'')"
    by auto
  from r5 have a5: "recovered plain_world (initial_state START_URL) START_URL
      (ProcessingError ''SelectorSyntaxError: #hs-web-interactives-.*'')"
    by auto
  from a1 a2 a3 a4 a5 run two show ?thesis by (intro conjI) simp_all
qed

section \<open>The counter\<close>

text \<open>
  Claim C10. At the start of every pass of a run, \<open>pages_crawled\<close> equals the number
  of entries of \<open>crawl_data\<close>; a pass after which the loop goes on either leaves both
  as they are or adds one entry and one to the counter.
\<close>

theorem pages_crawled_counts_entries:
  assumes "state_at n w (initial_state start_url) = Some s"
  shows "pages_crawled s = int (length (crawl_data s)) \<and>
         (\<forall>s'. crawl_iteration w s = Next s' \<longrightarrow>
            (crawl_data s' = crawl_data s \<and> pages_crawled s' = pages_crawled s) \<or>
            (length (crawl_data s') = length (crawl_data s) + 1 \<and>
             pages_crawled s' = pages_crawled s + 1))"
proof -
  from state_at_consistent [OF initial_consistent assms] have c: "consistent s" .
  then have count: "pages_crawled s = int (length (crawl_data s))"
    by (simp add: consistent_def)
  have "(crawl_data s' = crawl_data s \<and> pages_crawled s' = pages_crawled s) \<or>
        (length (crawl_data s') = length (crawl_data s) + 1 \<and>
         pages_crawled s' = pages_crawled s + 1)"
    if step: "crawl_iteration w s = Next s'" for s'
  proof -
    from iteration_consistent [OF step c] have "consistent s'" .
    then have "pages_crawled s' = int (length (crawl_data s'))"
      by (simp add: consistent_def)
    with count iteration_shape [OF step] show ?thesis by auto
  qed
  with count show ?thesis by blast
qed

theorem pages_crawled_counts_entries_witness:
  "state_at 3 chain_world (initial_state START_URL) = Some (chain_state 3) \<and>
   pages_crawled (chain_state 3) = int (length (crawl_data (chain_state 3))) \<and>
   pages_crawled (chain_state 3) = 3 \<and>
   crawl_iteration chain_world (chain_state 3) = Next (chain_state 4) \<and>
   length (crawl_data (chain_state 4)) = length (crawl_data (chain_state 3)) + 1 \<and>
   pages_crawled (chain_state 4) = pages_crawled (chain_state 3) + 1"
proof -
  have reach: "state_at 3 chain_world (initial_state START_URL) = Some (chain_state 3)"
    using state_at_chain [of 0 3] by (simp add: initial_chain)
  have step: "crawl_iteration chain_world (chain_state 3) = Next (chain_state 4)"
    using chain_step [of 3] periodic_save_chain [of 3] by simp
  have pages: "pages_crawled (chain_state 3) = 3" "pages_crawled (chain_state 4) = 4"
    "length (crawl_data (chain_state 4)) = 4"
    by (simp_all add: chain_state_def)
  from pages_crawled_counts_entries [OF reach] have "3 = int (length (crawl_data (chain_state 3)))"
    by (simp add: pages)
  with reach step pages show ?thesis by simp
qed

end
